theory Spec2Isabelle
  imports Main
begin

section \<open>JavaScript values, strings and objects\<close>

text \<open>
  The orchestrator (\<^verbatim>\<open>index.js\<close>) keeps every store key it has seen in one object
  \<^verbatim>\<open>cache\<close> and works on keys by \<^verbatim>\<open>split('/')\<close> and positional access.
  A read of an absent property or of an array position out of range yields
  \<^verbatim>\<open>undefined\<close>, which the code compares with \<^verbatim>\<open>===\<close> and concatenates into strings;
  both are kept in the model. Characters are code units below 256.
\<close>

datatype jsval = Undefined | Null | Str string

text \<open>The coercion of \<^verbatim>\<open>'...' + x\<close>.\<close>

fun to_str :: "jsval \<Rightarrow> string" where
  "to_str Undefined = ''undefined''"
| "to_str Null = ''null''"
| "to_str (Str s) = s"

text \<open>\<^verbatim>\<open>parts[i]\<close>: \<^verbatim>\<open>undefined\<close> out of range.\<close>

definition nth_js :: "string list \<Rightarrow> nat \<Rightarrow> jsval" where
  "nth_js xs i = (if i < length xs then Str (xs ! i) else Undefined)"

text \<open>
  \<^verbatim>\<open>s.split(c)\<close> for a one-character separator. The result is never the empty
  array (\<open>split_on_not_Nil\<close>), so the first branch of the case below is never taken.
\<close>

fun split_on :: "char \<Rightarrow> string \<Rightarrow> string list" where
  "split_on c [] = [[]]"
| "split_on c (x # xs) =
     (if x = c then [] # split_on c xs
      else (case split_on c xs of
              [] \<Rightarrow> [[x]]
            | y # ys \<Rightarrow> (x # y) # ys))"

abbreviation split :: "string \<Rightarrow> string list" where
  "split key \<equiv> split_on CHR ''/'' key"

text \<open>\<^verbatim>\<open>a.join(sep)\<close>.\<close>

fun join :: "string \<Rightarrow> string list \<Rightarrow> string" where
  "join sep [] = []"
| "join sep [x] = x"
| "join sep (x # y # ys) = x @ sep @ join sep (y # ys)"

text \<open>
  An object with string values is the list of its own properties in enumeration order
  (\<^verbatim>\<open>for (const key in obj)\<close>): array-index names first, ascending, then the other
  names in the order of their creation.
\<close>

type_synonym obj = "(string \<times> string) list"

definition obj_get :: "obj \<Rightarrow> string \<Rightarrow> jsval" where
  "obj_get ob k = (case map_of ob k of None \<Rightarrow> Undefined | Some v \<Rightarrow> Str v)"

definition is_digit :: "char \<Rightarrow> bool" where
  "is_digit c = (48 \<le> (of_char c :: nat) \<and> (of_char c :: nat) \<le> 57)"

definition digits_val :: "string \<Rightarrow> int" where
  "digits_val s = foldl (\<lambda>n c. 10 * n + ((of_char c :: int) - 48)) 0 s"

text \<open>A canonical numeric string below \<open>2^32 - 1\<close>.\<close>

definition is_array_index :: "string \<Rightarrow> bool" where
  "is_array_index s =
     (s \<noteq> [] \<and> list_all is_digit s \<and> (s = ''0'' \<or> hd s \<noteq> CHR ''0'')
      \<and> digits_val s < 4294967295)"

fun obj_replace :: "obj \<Rightarrow> string \<Rightarrow> string \<Rightarrow> obj" where
  "obj_replace [] k v = []"
| "obj_replace ((k', v') # r) k v =
     (if k' = k then (k, v) # r else (k', v') # obj_replace r k v)"

fun obj_insert_index :: "obj \<Rightarrow> string \<Rightarrow> string \<Rightarrow> obj" where
  "obj_insert_index [] k v = [(k, v)]"
| "obj_insert_index ((k', v') # r) k v =
     (if is_array_index k' \<and> digits_val k' < digits_val k
      then (k', v') # obj_insert_index r k v
      else (k, v) # (k', v') # r)"

text \<open>
  \<^verbatim>\<open>obj[k] = v\<close> on an object that inherits from \<^verbatim>\<open>Object.prototype\<close>, such as the
  \<^verbatim>\<open>{}\<close> in which \<^verbatim>\<open>connections\<close> collects the properties. The name \<^verbatim>\<open>__proto__\<close> is
  that of an inherited accessor: unless the object has a property of its own of this
  name, the assignment calls the setter, which ignores a string, and creates nothing.
\<close>

definition obj_set :: "obj \<Rightarrow> string \<Rightarrow> string \<Rightarrow> obj" where
  "obj_set ob k v =
     (if k \<in> set (map fst ob) then obj_replace ob k v
      else if k = ''__proto__'' then ob
      else if is_array_index k then obj_insert_index ob k v
      else ob @ [(k, v)])"

section \<open>The wildcard filter\<close>

text \<open>
  \<^verbatim>\<open>match(text, filter)\<close> builds the source of a regular expression,
  \<^verbatim>\<open>'^' + filter.split('*').map(esc).join('.*') + '$'\<close>, compiles it with the flag
  \<^verbatim>\<open>i\<close> and tests the text. The three steps are modelled one by one: the string that
  is built, its reading as a pattern, and the matcher.
\<close>

definition bsl :: char where
  "bsl = CHR 0x5C"

text \<open>The characters of the class in \<^verbatim>\<open>esc\<close>: \<^verbatim>\<open>. * + ? ^ = ! : $ { } ( ) | [ ] /\<close> and the backslash.\<close>

definition esc_chars :: "char list" where
  "esc_chars = ''.*+?^=!:${}()|[]/'' @ [bsl]"

definition esc :: "string \<Rightarrow> string" where
  "esc s = concat (map (\<lambda>c. if c \<in> set esc_chars then [bsl, c] else [c]) s)"

definition pattern_source :: "string \<Rightarrow> string" where
  "pattern_source f = ''^'' @ join ''.*'' (map esc (split_on CHR ''*'' f)) @ ''$''"

text \<open>
  The patterns that can be built this way use five forms only: the two anchors, a
  literal character (written as itself or behind a backslash), the dot, and the dot
  under a star. \<open>rx_parse\<close> reads exactly this fragment of the pattern grammar and
  answers \<open>None\<close> on anything else (\<^verbatim>\<open>new RegExp\<close> would throw or build a term
  outside the fragment); \<open>rx_parse_pattern_source\<close> below shows that this never happens
  for a built pattern.
\<close>

datatype rx = RBegin | REnd | RChar char | RAny | RAnyStar

definition rx_syntax :: "char list" where
  "rx_syntax = ''*+?()[]{}|'' @ [bsl]"

definition rx_atom :: "char \<Rightarrow> rx option" where
  "rx_atom c =
     (if c = CHR ''^'' then Some RBegin
      else if c = CHR ''$'' then Some REnd
      else if c = CHR ''.'' then Some RAny
      else if c \<in> set rx_syntax then None
      else Some (RChar c))"

fun rx_parse :: "string \<Rightarrow> rx list option" where
  "rx_parse [] = Some []"
| "rx_parse [c] = map_option (\<lambda>a. [a]) (rx_atom c)"
| "rx_parse (c # d # ds) =
     (if c = bsl then
        (if d \<in> set esc_chars then map_option (Cons (RChar d)) (rx_parse ds) else None)
      else if c = CHR ''.'' \<and> d = CHR ''*'' then map_option (Cons RAnyStar) (rx_parse ds)
      else (case rx_atom c of
              None \<Rightarrow> None
            | Some a \<Rightarrow> map_option (Cons a) (rx_parse (d # ds))))"

text \<open>
  Case folding of the flag \<^verbatim>\<open>i\<close> (without \<^verbatim>\<open>u\<close>): a character is compared by its
  upper case where that is a single code unit. Below 256 this maps \<^verbatim>\<open>a-z\<close> and
  \<^verbatim>\<open>0xE0-0xFE\<close> (but \<^verbatim>\<open>0xF7\<close>) down by 32; \<^verbatim>\<open>0xB5\<close> and \<^verbatim>\<open>0xFF\<close> go to code units
  above 255, which no other character below 256 reaches, and \<^verbatim>\<open>0xDF\<close> is kept.
\<close>

definition canon :: "char \<Rightarrow> char" where
  "canon c =
     (let n = (of_char c :: nat)
      in if (97 \<le> n \<and> n \<le> 122) \<or> (224 \<le> n \<and> n \<le> 254 \<and> n \<noteq> 247)
         then char_of (n - 32) else c)"

text \<open>The dot matches every character but a line terminator.\<close>

definition line_terminator :: "char \<Rightarrow> bool" where
  "line_terminator c = (c = CHR 0x0A \<or> c = CHR 0x0D)"

text \<open>
  The backtracking matcher: \<open>rx_run r i s\<close> tries the terms \<open>r\<close> at position \<open>i\<close> of the
  text, \<open>s\<close> being the text from there on. The star is greedy.
\<close>

fun rx_run :: "rx list \<Rightarrow> nat \<Rightarrow> string \<Rightarrow> bool" where
  "rx_run [] i s = True"
| "rx_run (RBegin # r) i s = (i = 0 \<and> rx_run r i s)"
| "rx_run (REnd # r) i s = (s = [] \<and> rx_run r i s)"
| "rx_run (RChar c # r) i [] = False"
| "rx_run (RChar c # r) i (x # xs) = (canon x = canon c \<and> rx_run r (Suc i) xs)"
| "rx_run (RAny # r) i [] = False"
| "rx_run (RAny # r) i (x # xs) = (\<not> line_terminator x \<and> rx_run r (Suc i) xs)"
| "rx_run (RAnyStar # r) i [] = rx_run r i []"
| "rx_run (RAnyStar # r) i (x # xs) =
     ((\<not> line_terminator x \<and> rx_run (RAnyStar # r) (Suc i) xs) \<or> rx_run r i (x # xs))"

text \<open>\<^verbatim>\<open>regexp.test(text)\<close>: a match may start at any position.\<close>

definition rx_test :: "rx list \<Rightarrow> string \<Rightarrow> bool" where
  "rx_test r s = list_ex (\<lambda>k. rx_run r k (drop k s)) [0 ..< Suc (length s)]"

definition match :: "string \<Rightarrow> string \<Rightarrow> bool" where
  "match txt f =
     (case rx_parse (pattern_source f) of
        None \<Rightarrow> False
      | Some r \<Rightarrow> rx_test r txt)"

text \<open>\<^verbatim>\<open>compare(key, filters)\<close>.\<close>

fun compare_from :: "string list \<Rightarrow> string list \<Rightarrow> bool" where
  "compare_from (k # ks) (f # fs) = (if \<not> match k f then False else compare_from ks fs)"
| "compare_from _ _ = True"

definition compare :: "string \<Rightarrow> string list \<Rightarrow> bool" where
  "compare key filters =
     (let keys = split key
      in if length keys = length filters then compare_from keys filters else False)"

text \<open>
  \<^verbatim>\<open>filter(keys, filter)\<close>: the result object receives the matching properties in the
  enumeration order of \<open>keys\<close>.
\<close>

definition filter_js :: "obj \<Rightarrow> string \<Rightarrow> obj" where
  "filter_js keys f = (let filters = split f in [(k, v) \<leftarrow> keys. compare k filters])"

section \<open>The orchestrator\<close>

text \<open>
  The globals of \<^verbatim>\<open>index.js\<close>: the cache, the store client (connected or not), the
  rebuild timer (armed or not). The store is outside the program; the model records the
  writes issued to it, in order, and counts the identifiers drawn from
  \<^verbatim>\<open>short.generate()\<close>, which is a parameter \<open>gen\<close> of the functions that use it.
\<close>

record state =
  cache :: obj
  client :: bool
  timer :: bool
  puts :: "(string \<times> string) list"
  ids :: nat

datatype error = E_CONNECT

definition bind_err :: "error + 'a \<Rightarrow> ('a \<Rightarrow> error + 'b) \<Rightarrow> error + 'b" where
  "bind_err r f = (case r of Inl e \<Rightarrow> Inl e | Inr x \<Rightarrow> f x)"

text \<open>
  \<^verbatim>\<open>put(key, value)\<close> throws when there is no client. A failure of the transport itself
  is not modelled: a connected client accepts every write.
\<close>

definition put :: "string \<Rightarrow> string \<Rightarrow> state \<Rightarrow> error + state" where
  "put key val s =
     (if client s then Inr (s\<lparr>puts := puts s @ [(key, val)]\<rparr>) else Inl E_CONNECT)"

text \<open>A loop of awaited puts.\<close>

fun put_all :: "(string \<times> string) list \<Rightarrow> state \<Rightarrow> error + state" where
  "put_all [] s = Inr s"
| "put_all ((key, val) # r) s = bind_err (put key val s) (put_all r)"

definition isValidMode :: "jsval \<Rightarrow> bool" where
  "isValidMode mode = (mode = Str ''allsystems'' \<or> mode = Str ''bysystem'')"

definition getOppositeRole :: "jsval \<Rightarrow> jsval \<Rightarrow> jsval" where
  "getOppositeRole role flag =
     (if role = Str ''provider'' then (if flag = Str ''yes'' then Str ''consumer'' else Null)
      else if role = Str ''consumer'' then (if flag \<noteq> Str ''yes'' then Str ''provider'' else Null)
      else Null)"

text \<open>\<^verbatim>\<open>a.join(sep)\<close> on an array that may hold \<^verbatim>\<open>undefined\<close>, which joins as the empty string.\<close>

fun join_str :: "jsval \<Rightarrow> string" where
  "join_str (Str s) = s"
| "join_str _ = []"

subsection \<open>Property updates\<close>

text \<open>The capability prefix and the key of the ownership flag, as both handlers build them.\<close>

definition capability_ns :: "string list \<Rightarrow> string" where
  "capability_ns parts =
     ''cns/'' @ to_str (nth_js parts 1) @ ''/nodes/'' @ to_str (nth_js parts 3) @
     ''/contexts/'' @ to_str (nth_js parts 5) @ ''/'' @ to_str (nth_js parts 6) @
     ''/'' @ to_str (nth_js parts 7)"

definition flag_key :: "jsval \<Rightarrow> jsval \<Rightarrow> jsval \<Rightarrow> jsval \<Rightarrow> string" where
  "flag_key network prof vers property =
     ''cns/'' @ to_str network @ ''/profiles/'' @ to_str prof @ ''/versions/version'' @
     to_str vers @ ''/properties/'' @ to_str property @ ''/provider''"

definition update :: "string \<Rightarrow> string \<Rightarrow> state \<Rightarrow> error + state" where
  "update key val s =
     (let parts = split key;
          network = nth_js parts 1;
          prof = nth_js parts 7;
          connection = nth_js parts 9;
          property = nth_js parts 11;
          mode = obj_get (cache s) (''cns/'' @ to_str network @ ''/orchestrator'')
      in if \<not> isValidMode mode then Inr s
      else let ns = capability_ns parts;
               vers = obj_get (cache s) (ns @ ''/version'')
      in if vers = Null then Inr s
      else let flag = obj_get (cache s) (flag_key network prof vers property)
      in if flag = Null then Inr s
      else let opposite = getOppositeRole (nth_js parts 6) flag
      in if opposite = Null then Inr s
      else let other = obj_get (cache s)
                 (ns @ ''/connections/'' @ to_str connection @ ''/'' @ to_str opposite)
      in if other = Null then Inr s
      else put (to_str other @ ''/'' @ to_str opposite @ ''/'' @ to_str prof @
                ''/connections/'' @ to_str connection @ ''/properties/'' @ to_str property)
             val s)"

definition propagate :: "string \<Rightarrow> string \<Rightarrow> state \<Rightarrow> error + state" where
  "propagate key val s =
     (let parts = split key;
          network = nth_js parts 1;
          prof = nth_js parts 7;
          property = nth_js parts 9;
          mode = obj_get (cache s) (''cns/'' @ to_str network @ ''/orchestrator'')
      in if \<not> isValidMode mode then Inr s
      else let ns = capability_ns parts;
               vers = obj_get (cache s) (ns @ ''/version'')
      in if vers = Null then Inr s
      else let flag = obj_get (cache s) (flag_key network prof vers property)
      in if flag = Null then Inr s
      else let opposite = getOppositeRole (nth_js parts 6) flag
      in if opposite = Null then Inr s
      else let connections = filter_js (cache s) (ns @ ''/connections/*/'' @ to_str opposite)
      in put_all
           (map (\<lambda>(k, v). (join ''/'' (butlast (split k) @ [''properties'', join_str property]), val))
              connections) s)"

subsection \<open>The matchmaker\<close>

record candidate =
  provider :: string
  consumer :: string
  profile :: jsval
  version :: string

definition endpoint :: "jsval \<Rightarrow> jsval \<Rightarrow> jsval \<Rightarrow> string" where
  "endpoint network node context =
     ''cns/'' @ to_str network @ ''/nodes/'' @ to_str node @ ''/contexts/'' @ to_str context"

definition bysystem ::
  "state \<Rightarrow> jsval \<Rightarrow> string \<Rightarrow> jsval \<Rightarrow> string \<Rightarrow> jsval \<Rightarrow> candidate list \<Rightarrow> candidate list" where
  "bysystem s network prov prof vers scope add =
     foldl (\<lambda>add (key, _).
        let node = nth_js (split key) 3
        in foldl (\<lambda>add (key, _).
             let context = nth_js (split key) 5
             in if context = scope then
                  (let cons = endpoint network node context
                   in foldl (\<lambda>add (key, v).
                        if v = vers
                        then add @ [\<lparr>provider = prov, consumer = cons, profile = prof, version = vers\<rparr>]
                        else add)
                      add
                      (filter_js (cache s) (cons @ ''/consumer/'' @ to_str prof @ ''/version'')))
                else add)
           add
           (filter_js (cache s)
              (''cns/'' @ to_str network @ ''/nodes/'' @ to_str node @ ''/contexts/*/name'')))
       add
       (filter_js (cache s) (''cns/'' @ to_str network @ ''/nodes/*/name''))"

definition allsystems ::
  "state \<Rightarrow> string \<Rightarrow> jsval \<Rightarrow> string \<Rightarrow> jsval \<Rightarrow> candidate list \<Rightarrow> candidate list" where
  "allsystems s prov prof vers scope add =
     foldl (\<lambda>add (key, _). bysystem s (nth_js (split key) 1) prov prof vers scope add)
       add (filter_js (cache s) ''cns/*/name'')"

definition consumers ::
  "state \<Rightarrow> jsval \<Rightarrow> jsval \<Rightarrow> jsval \<Rightarrow> jsval \<Rightarrow> jsval \<Rightarrow> string \<Rightarrow> candidate list
     \<Rightarrow> candidate list" where
  "consumers s mode network node context prof vers add =
     (let prov = endpoint network node context;
          scope = context
      in if mode = Str ''allsystems'' then allsystems s prov prof vers scope add
         else if mode = Str ''bysystem'' then bysystem s network prov prof vers scope add
         else add)"

text \<open>The three inner loops of \<^verbatim>\<open>build\<close>, over the nodes of a network with a valid mode.\<close>

definition build_network :: "state \<Rightarrow> jsval \<Rightarrow> jsval \<Rightarrow> candidate list \<Rightarrow> candidate list" where
  "build_network s mode network add =
     (let ns1 = ''cns/'' @ to_str network
      in foldl (\<lambda>add (key, _).
           let node = nth_js (split key) 3;
               ns2 = ns1 @ ''/nodes/'' @ to_str node
           in foldl (\<lambda>add (key, _).
                let context = nth_js (split key) 5;
                    ns3 = ns2 @ ''/contexts/'' @ to_str context
                in foldl (\<lambda>add (key, vers).
                     consumers s mode network node context (nth_js (split key) 7) vers add)
                   add
                   (filter_js (cache s) (ns3 @ ''/provider/*/version'')))
              add
              (filter_js (cache s) (ns2 @ ''/contexts/*/name'')))
         add
         (filter_js (cache s) (ns1 @ ''/nodes/*/name'')))"

text \<open>
  The loop over the networks. On a network whose mode is not valid the source executes
  \<^verbatim>\<open>return\<close>, which leaves \<^verbatim>\<open>build\<close> itself: \<open>None\<close>.
\<close>

fun build_networks :: "state \<Rightarrow> obj \<Rightarrow> candidate list \<Rightarrow> candidate list option" where
  "build_networks s [] add = Some add"
| "build_networks s ((key, v) # networks) add =
     (let network = nth_js (split key) 1;
          mode = obj_get (cache s) (''cns/'' @ to_str network @ ''/orchestrator'')
      in if \<not> isValidMode mode then None
         else build_networks s networks (build_network s mode network add))"

subsection \<open>The connection writer\<close>

text \<open>A search loop that stops at the first property whose value is \<open>v\<close>.\<close>

definition first_with :: "obj \<Rightarrow> string \<Rightarrow> string option" where
  "first_with ob v = map_option fst (find (\<lambda>(k, v'). v' = v) ob)"

definition merge_defaults :: "obj \<Rightarrow> obj \<Rightarrow> obj" where
  "merge_defaults properties props =
     foldl (\<lambda>properties (key, v). obj_set properties (to_str (nth_js (split key) 9)) v)
       properties props"

text \<open>The body of the loop of \<^verbatim>\<open>connections\<close>, for one candidate.\<close>

definition connection :: "(nat \<Rightarrow> string) \<Rightarrow> candidate \<Rightarrow> state \<Rightarrow> error + state" where
  "connection gen c s =
     (let provs = filter_js (cache s)
            (provider c @ ''/provider/'' @ to_str (profile c) @ ''/connections/*/consumer'');
          conss = filter_js (cache s)
            (consumer c @ ''/consumer/'' @ to_str (profile c) @ ''/connections/*/provider'');
          (id1, addp) = (case first_with provs (consumer c) of
                           Some key \<Rightarrow> (nth_js (split key) 9, False)
                         | None \<Rightarrow> (Null, True));
          (id2, addc) = (case first_with conss (provider c) of
                           Some key \<Rightarrow> (nth_js (split key) 9, False)
                         | None \<Rightarrow> (id1, True))
      in if \<not> addp \<and> \<not> addc then Inr s
      else let propsp = filter_js (cache s)
                 (provider c @ ''/provider/'' @ to_str (profile c) @ ''/properties/*'');
               propsc = filter_js (cache s)
                 (consumer c @ ''/consumer/'' @ to_str (profile c) @ ''/properties/*'');
               properties = merge_defaults (merge_defaults [] propsp) propsc;
               (ident, s1) = (if id2 = Null then (Str (gen (ids s)), s\<lparr>ids := Suc (ids s)\<rparr>)
                              else (id2, s));
               nsp = provider c @ ''/provider/'' @ to_str (profile c) @ ''/connections/'' @
                     to_str ident @ ''/'';
               nsc = consumer c @ ''/consumer/'' @ to_str (profile c) @ ''/connections/'' @
                     to_str ident @ ''/''
      in bind_err
           (if addp then
              bind_err (put (nsp @ ''consumer'') (consumer c) s1)
                (put_all (map (\<lambda>(name, v). (nsp @ ''properties/'' @ name, v)) properties))
            else Inr s1)
           (\<lambda>s2. if addc then
              bind_err (put (nsc @ ''provider'') (provider c) s2)
                (put_all (map (\<lambda>(name, v). (nsc @ ''properties/'' @ name, v)) properties))
            else Inr s2))"

fun connections :: "(nat \<Rightarrow> string) \<Rightarrow> candidate list \<Rightarrow> state \<Rightarrow> error + state" where
  "connections gen [] s = Inr s"
| "connections gen (c # add) s = bind_err (connection gen c s) (connections gen add)"

definition build :: "(nat \<Rightarrow> string) \<Rightarrow> state \<Rightarrow> error + state" where
  "build gen s =
     (case build_networks s (filter_js (cache s) ''cns/*/name'') [] of
        None \<Rightarrow> Inr s
      | Some add \<Rightarrow> connections gen add s)"

subsection \<open>The event classifier\<close>

text \<open>\<^verbatim>\<open>rebuild()\<close> cancels an armed timer and arms a new one.\<close>

definition rebuild :: "state \<Rightarrow> state" where
  "rebuild s = s\<lparr>timer := True\<rparr>"

text \<open>
  \<^verbatim>\<open>onput(key, value)\<close>. The three actions it dispatches to are parameters of
  \<open>onput_with\<close>, so that a statement about every choice of them says which of them the
  handler reaches; \<open>onput\<close> is the handler of the source.
\<close>

definition onput_with ::
  "(state \<Rightarrow> state) \<Rightarrow> (string \<Rightarrow> string \<Rightarrow> state \<Rightarrow> error + state) \<Rightarrow>
   (string \<Rightarrow> string \<Rightarrow> state \<Rightarrow> error + state) \<Rightarrow> string \<Rightarrow> string \<Rightarrow> state \<Rightarrow> error + state" where
  "onput_with do_rebuild do_update do_propagate key val s =
     (let parts = split key;
          root = nth_js parts 0;
          network = nth_js parts 1;
          property = nth_js parts 2;
          role = nth_js parts 6;
          capability = nth_js parts 8;
          connection = nth_js parts 10
      in if root \<noteq> Str ''cns'' \<or> network = Undefined then Inr s
      else let s1 = s\<lparr>cache := obj_set (cache s) key val\<rparr>
      in if property = Str ''orchestrator'' then Inr (do_rebuild s1)
         else if property = Str ''nodes'' then
           (if role = Str ''provider'' \<or> role = Str ''consumer'' then
              (if capability = Str ''version'' \<or> capability = Str ''scope''
               then Inr (do_rebuild s1)
               else if capability = Str ''connections'' then
                 (if connection = Str ''properties'' then do_update key val s1 else Inr s1)
               else if capability = Str ''properties'' then do_propagate key val s1
               else Inr s1)
            else Inr s1)
         else if property = Str ''profiles'' then Inr (do_rebuild s1)
         else Inr s1)"

definition onput :: "string \<Rightarrow> string \<Rightarrow> state \<Rightarrow> error + state" where
  "onput = onput_with rebuild update propagate"

section \<open>Notions of the specification\<close>

text \<open>
  The glob semantics of a pattern segment, as the specification words it: a star stands
  for a possibly empty run of characters, every other character stands for itself up
  to letter case. The class \<open>star\<close> of the characters a star may cover is a parameter.
\<close>

inductive glob_with :: "(char \<Rightarrow> bool) \<Rightarrow> string \<Rightarrow> string \<Rightarrow> bool" for star where
  glob_empty: "glob_with star [] []"
| glob_literal:
    "p \<noteq> CHR ''*'' \<Longrightarrow> canon x = canon p \<Longrightarrow> glob_with star ps xs
     \<Longrightarrow> glob_with star (p # ps) (x # xs)"
| glob_star:
    "list_all star w \<Longrightarrow> glob_with star ps xs \<Longrightarrow> glob_with star (CHR ''*'' # ps) (w @ xs)"

text \<open>The same relation as a recursive function, for evaluation.\<close>

fun glob_rec :: "(char \<Rightarrow> bool) \<Rightarrow> string \<Rightarrow> string \<Rightarrow> bool" where
  "glob_rec star [] t = (t = [])"
| "glob_rec star (p # ps) [] = (p = CHR ''*'' \<and> glob_rec star ps [])"
| "glob_rec star (p # ps) (x # xs) =
     (if p = CHR ''*'' then (star x \<and> glob_rec star (p # ps) xs) \<or> glob_rec star ps (x # xs)
      else canon x = canon p \<and> glob_rec star ps xs)"

text \<open>
  The sub-map of the entries whose key has as many segments as the pattern, each
  matching its pattern segment.
\<close>

definition filter_spec :: "(char \<Rightarrow> bool) \<Rightarrow> obj \<Rightarrow> string \<Rightarrow> obj" where
  "filter_spec star M pat = [(k, v) \<leftarrow> M. list_all2 (glob_with star) (split pat) (split k)]"

text \<open>The pattern a filter segment is read as, and the source text built for it.\<close>

definition glob_term :: "char \<Rightarrow> rx" where
  "glob_term c = (if c = CHR ''*'' then RAnyStar else RChar c)"

definition glob_source :: "string \<Rightarrow> string" where
  "glob_source f = join ''.*'' (map esc (split_on CHR ''*'' f))"

text \<open>A string that is one segment of a key.\<close>

definition segment :: "string \<Rightarrow> bool" where
  "segment x = (CHR ''/'' \<notin> set x)"

subsection \<open>Scenarios\<close>

definition state_of :: "obj \<Rightarrow> state" where
  "state_of c = \<lparr>cache = c, client = True, timer = False, puts = [], ids = 0\<rparr>"

text \<open>
  A connection of profile \<open>p1\<close> between the provider \<open>cns/N/nodes/A/contexts/X\<close> and the
  consumer \<open>cns/N/nodes/B/contexts/X\<close> whose property \<open>x\<close> the provider owns.
\<close>

definition linked_cache :: obj where
  "linked_cache =
     [(''cns/N/orchestrator'', ''bysystem''),
      (''cns/N/profiles/p1/versions/version1/properties/x/provider'', ''yes''),
      (''cns/N/nodes/A/contexts/X/provider/p1/version'', ''1''),
      (''cns/N/nodes/A/contexts/X/provider/p1/connections/c7/consumer'', ''cns/N/nodes/B/contexts/X''),
      (''cns/N/nodes/B/contexts/X/consumer/p1/version'', ''1''),
      (''cns/N/nodes/B/contexts/X/consumer/p1/connections/c7/provider'', ''cns/N/nodes/A/contexts/X'')]"

text \<open>The same store before the network is given an orchestrator mode.\<close>

definition modeless_cache :: obj where
  "modeless_cache = tl linked_cache"

text \<open>A consumer-side connection record of a capability that has no version key.\<close>

definition versionless_cache :: obj where
  "versionless_cache =
     [(''cns/N/orchestrator'', ''bysystem''),
      (''cns/N/nodes/B/contexts/X/consumer/p1/connections/c7/provider'', ''cns/N/nodes/A/contexts/X'')]"

text \<open>A provider capability with two connections.\<close>

definition fanout_cache :: obj where
  "fanout_cache =
     [(''cns/N/orchestrator'', ''bysystem''),
      (''cns/N/profiles/p1/versions/version1/properties/x/provider'', ''yes''),
      (''cns/N/nodes/A/contexts/X/provider/p1/version'', ''1''),
      (''cns/N/nodes/A/contexts/X/provider/p1/connections/c7/consumer'', ''cns/N/nodes/B/contexts/X''),
      (''cns/N/nodes/A/contexts/X/provider/p1/connections/c8/consumer'', ''cns/N/nodes/C/contexts/X'')]"

text \<open>A provider capability of node \<open>A\<close>, and a connection record of another node, \<open>a\<close>.\<close>

definition variant_cache :: obj where
  "variant_cache =
     [(''cns/N/orchestrator'', ''bysystem''),
      (''cns/N/profiles/p1/versions/version1/properties/x/provider'', ''yes''),
      (''cns/N/nodes/A/contexts/X/provider/p1/version'', ''1''),
      (''cns/N/nodes/a/contexts/X/provider/p1/connections/c8/consumer'', ''cns/N/nodes/C/contexts/X'')]"

subsection \<open>Connections\<close>

text \<open>
  Two readings of ``the keys under a pattern''. \<open>found\<close> is the glob reading of the
  pattern, segment by segment, up to letter case and with a star that covers no line
  terminator. \<open>own_keys\<close> is the reading letter for letter: the key is the pattern itself
  with some segment in the place of each star segment.
\<close>

definition found :: "state \<Rightarrow> string \<Rightarrow> obj" where
  "found s pat = filter_spec (\<lambda>c. \<not> line_terminator c) (cache s) pat"

definition own_keys :: "state \<Rightarrow> string \<Rightarrow> obj" where
  "own_keys s pat =
     [(k, v) \<leftarrow> cache s. list_all2 (\<lambda>f x. f = ''*'' \<or> x = f) (split pat) (split k)]"

text \<open>
  The connection records found at a candidate's two sides, and whether one of them
  points at the other side.
\<close>

definition provider_records :: "state \<Rightarrow> candidate \<Rightarrow> obj" where
  "provider_records s c =
     found s (provider c @ ''/provider/'' @ to_str (profile c) @ ''/connections/*/consumer'')"

definition consumer_records :: "state \<Rightarrow> candidate \<Rightarrow> obj" where
  "consumer_records s c =
     found s (consumer c @ ''/consumer/'' @ to_str (profile c) @ ''/connections/*/provider'')"

definition provider_linked :: "state \<Rightarrow> candidate \<Rightarrow> bool" where
  "provider_linked s c = list_ex (\<lambda>(k, v). v = consumer c) (provider_records s c)"

definition consumer_linked :: "state \<Rightarrow> candidate \<Rightarrow> bool" where
  "consumer_linked s c = list_ex (\<lambda>(k, v). v = provider c) (consumer_records s c)"

text \<open>
  The entries found under the \<open>properties\<close> of a capability, the name each of them is
  given (the tenth segment of its key), and a list of such entries as a map from names
  to values in which the later of two entries of one name stands.
\<close>

definition found_defaults :: "state \<Rightarrow> string \<Rightarrow> string \<Rightarrow> jsval \<Rightarrow> obj" where
  "found_defaults s ep role prof =
     found s (ep @ ''/'' @ role @ ''/'' @ to_str prof @ ''/properties/*'')"



text \<open>The store after a sequence of writes.\<close>

definition store_after :: "(string \<rightharpoonup> string) \<Rightarrow> (string \<times> string) list \<Rightarrow> (string \<rightharpoonup> string)" where
  "store_after st ws = foldl (\<lambda>m (k, v). m(k \<mapsto> v)) st ws"


text \<open>
  The prefix of a connection at one endpoint, and the writes that create one side of it:
  the link to the other endpoint, then the properties.
\<close>

definition connection_ns :: "string \<Rightarrow> string \<Rightarrow> jsval \<Rightarrow> string \<Rightarrow> string" where
  "connection_ns ep role prof ident =
     ep @ ''/'' @ role @ ''/'' @ to_str prof @ ''/connections/'' @ ident @ ''/''"

definition side_writes :: "string \<Rightarrow> string \<Rightarrow> string \<Rightarrow> obj \<Rightarrow> (string \<times> string) list" where
  "side_writes ns opposite other props =
     (ns @ opposite, other) # map (\<lambda>(name, v). (ns @ ''properties/'' @ name, v)) props"

text \<open>A candidate whose two endpoints have the six segments of an endpoint prefix.\<close>

definition well_formed :: "candidate \<Rightarrow> bool" where
  "well_formed c = (length (split (provider c)) = 6 \<and> length (split (consumer c)) = 6)"

text \<open>
  The endpoints of a network: the node and the context of every context name key found
  under a node whose name key is found. The candidates one of them contributes for a
  provider: one for every version key found under its consumer capability of the profile
  whose value is the provider's version.
\<close>

definition consumer_endpoints :: "state \<Rightarrow> jsval \<Rightarrow> (jsval \<times> jsval) list" where
  "consumer_endpoints s network =
     concat (map (\<lambda>(nk, _).
         map (\<lambda>(ck, _). (nth_js (split nk) 3, nth_js (split ck) 5))
           (found s
              (''cns/'' @ to_str network @ ''/nodes/'' @ to_str (nth_js (split nk) 3) @
               ''/contexts/*/name'')))
       (found s (''cns/'' @ to_str network @ ''/nodes/*/name'')))"

definition consumer_candidates ::
  "state \<Rightarrow> string \<Rightarrow> jsval \<Rightarrow> string \<Rightarrow> jsval \<Rightarrow> jsval \<Rightarrow> jsval \<Rightarrow> candidate list" where
  "consumer_candidates s prov prof vers network node context =
     map (\<lambda>_. \<lparr>provider = prov, consumer = endpoint network node context, profile = prof,
               version = vers\<rparr>)
       (filter (\<lambda>(k, v). v = vers)
          (found s (endpoint network node context @ ''/consumer/'' @ to_str prof @ ''/version'')))"

subsection \<open>Scenarios of the matchmaker\<close>

text \<open>A supply of identifiers: \<open>id\<close>, \<open>idx\<close>, \<open>idxx\<close>, ...\<close>

definition short_ids :: "nat \<Rightarrow> string" where
  "short_ids n = ''id'' @ replicate n CHR ''x''"

definition pair_AB :: candidate where
  "pair_AB = \<lparr>provider = ''cns/N/nodes/A/contexts/X'', consumer = ''cns/N/nodes/B/contexts/X'',
              profile = Str ''p1'', version = ''1''\<rparr>"

text \<open>
  Scenario S1: a network in mode \<open>bysystem\<close>, a provider of profile \<open>p1\<close>, version 1, in
  context \<open>X\<close> of node \<open>A\<close> and a consumer of the same in context \<open>X\<close> of node \<open>B\<close>.
\<close>

definition pair_cache :: obj where
  "pair_cache =
     [(''cns/N/name'', ''Net''),
      (''cns/N/orchestrator'', ''bysystem''),
      (''cns/N/nodes/A/name'', ''a''),
      (''cns/N/nodes/A/contexts/X/name'', ''x''),
      (''cns/N/nodes/A/contexts/X/provider/p1/version'', ''1''),
      (''cns/N/nodes/B/name'', ''b''),
      (''cns/N/nodes/B/contexts/X/name'', ''x''),
      (''cns/N/nodes/B/contexts/X/consumer/p1/version'', ''1'')]"

text \<open>The two link records of the connection \<open>id\<close> between them.\<close>

definition pair_links :: "(string \<times> string) list" where
  "pair_links =
     [(''cns/N/nodes/A/contexts/X/provider/p1/connections/id/consumer'', ''cns/N/nodes/B/contexts/X''),
      (''cns/N/nodes/B/contexts/X/consumer/p1/connections/id/provider'', ''cns/N/nodes/A/contexts/X'')]"

definition linked_pair_state :: state where
  "linked_pair_state = (state_of pair_cache)\<lparr>ids := 1, puts := pair_links\<rparr>"

text \<open>Scenario S2: the same with the consumer in context \<open>Y\<close>.\<close>

definition mismatch_cache :: obj where
  "mismatch_cache =
     [(''cns/N/name'', ''Net''),
      (''cns/N/orchestrator'', ''bysystem''),
      (''cns/N/nodes/A/name'', ''a''),
      (''cns/N/nodes/A/contexts/X/name'', ''x''),
      (''cns/N/nodes/A/contexts/X/provider/p1/version'', ''1''),
      (''cns/N/nodes/B/name'', ''b''),
      (''cns/N/nodes/B/contexts/Y/name'', ''y''),
      (''cns/N/nodes/B/contexts/Y/consumer/p1/version'', ''1'')]"

text \<open>
  Node \<open>B\<close> has a context \<open>X\<close> without capabilities; its consumer capability is in the
  context \<open>x\<close>.
\<close>

definition casefold_cache :: obj where
  "casefold_cache =
     [(''cns/N/name'', ''Net''),
      (''cns/N/orchestrator'', ''bysystem''),
      (''cns/N/nodes/A/name'', ''a''),
      (''cns/N/nodes/A/contexts/X/name'', ''x''),
      (''cns/N/nodes/A/contexts/X/provider/p1/version'', ''1''),
      (''cns/N/nodes/B/name'', ''b''),
      (''cns/N/nodes/B/contexts/X/name'', ''x''),
      (''cns/N/nodes/B/contexts/x/consumer/p1/version'', ''1'')]"

text \<open>Scenario S1 with a network \<open>M\<close> of mode \<open>nodes\<close> in front.\<close>

definition two_network_cache :: obj where
  "two_network_cache =
     (''cns/M/name'', ''Other'') # (''cns/M/orchestrator'', ''nodes'') # pair_cache"

text \<open>
  Scenario S1 with a connection record of another node, \<open>a\<close>, that points at the
  consumer.
\<close>

definition borrowed_cache :: obj where
  "borrowed_cache =
     pair_cache @
     [(''cns/N/nodes/a/contexts/X/provider/p1/connections/c9/consumer'', ''cns/N/nodes/B/contexts/X'')]"








section \<open>Strings and objects\<close>

lemma split_on_not_Nil: "split_on c s \<noteq> []"
  by (induction s) (auto split: list.splits)

lemma split_on_Cons_other:
  "x \<noteq> c \<Longrightarrow> split_on c (x # s) = (x # hd (split_on c s)) # tl (split_on c s)"
  using split_on_not_Nil[of c s] by (cases "split_on c s") auto

lemma split_on_append_sep: "split_on c (a @ c # b) = split_on c a @ split_on c b"
proof (induction a)
  case Nil
  show ?case by simp
next
  case (Cons x a)
  obtain y ys where "split_on c a = y # ys"
    using split_on_not_Nil[of c a] by (cases "split_on c a") auto
  then show ?case using Cons by simp
qed

lemma split_on_segment: "c \<notin> set x \<Longrightarrow> split_on c x = [x]"
  by (induction x) auto

lemma split_on_elem: "x \<in> set (split_on c k) \<Longrightarrow> c \<notin> set x"
proof (induction k arbitrary: x)
  case Nil
  then show ?case by simp
next
  case (Cons a k)
  obtain y ys where r: "split_on c k = y # ys"
    using split_on_not_Nil[of c k] by (cases "split_on c k") auto
  show ?case
  proof (cases "a = c")
    case True
    then show ?thesis using Cons by auto
  next
    case False
    then have "x = a # y \<or> x \<in> set ys" using Cons.prems r by auto
    then show ?thesis using Cons.IH[of y] Cons.IH[of x] r False by auto
  qed
qed

lemma join_Cons_nonempty: "ys \<noteq> [] \<Longrightarrow> join sep (x # ys) = x @ sep @ join sep ys"
  by (cases ys) auto

lemma split_join:
  "segs \<noteq> [] \<Longrightarrow> \<forall>x \<in> set segs. c \<notin> set x \<Longrightarrow> split_on c (join [c] segs) = segs"
proof (induction segs)
  case Nil
  then show ?case by simp
next
  case (Cons x segs)
  show ?case
  proof (cases "segs = []")
    case True
    then show ?thesis using Cons.prems by (simp add: split_on_segment)
  next
    case False
    then have "join [c] (x # segs) = x @ c # join [c] segs"
      by (simp add: join_Cons_nonempty)
    then show ?thesis
      using Cons False by (simp add: split_on_append_sep split_on_segment)
  qed
qed

lemma obj_get_not_Null [simp]: "obj_get ob k \<noteq> Null"
  by (simp add: obj_get_def split: option.splits)

lemma segment_to_str_nth_js [simp]: "segment (to_str (nth_js (split k) i))"
  using split_on_elem[of "split k ! i" "CHR ''/''" k]
  by (auto simp: segment_def nth_js_def)

section \<open>The wildcard filter\<close>

lemma glob_source_Nil: "glob_source [] = []"
  by (simp add: glob_source_def esc_def)

lemma glob_source_star: "glob_source (CHR ''*'' # f) = ''.*'' @ glob_source f"
  by (simp add: glob_source_def esc_def join_Cons_nonempty split_on_not_Nil)

lemma esc_Cons: "esc (c # s) = (if c \<in> set esc_chars then [bsl, c] else [c]) @ esc s"
  by (simp add: esc_def)

lemma glob_source_other:
  assumes "c \<noteq> CHR ''*''"
  shows "glob_source (c # f) = (if c \<in> set esc_chars then [bsl, c] else [c]) @ glob_source f"
proof -
  obtain y ys where r: "split_on CHR ''*'' f = y # ys"
    using split_on_not_Nil[of "CHR ''*''" f] by (cases "split_on CHR ''*'' f") auto
  show ?thesis
    using assms r by (cases ys) (simp_all add: glob_source_def esc_Cons)
qed

lemma rx_parse_bsl:
  "d \<in> set esc_chars \<Longrightarrow> rx_parse (bsl # d # ds) = map_option (Cons (RChar d)) (rx_parse ds)"
  by simp

lemma rx_atom_plain: "c \<notin> set esc_chars \<Longrightarrow> rx_atom c = Some (RChar c)"
  by (auto simp: rx_atom_def esc_chars_def rx_syntax_def)

lemma rx_parse_plain:
  assumes "c \<notin> set esc_chars" "ds \<noteq> []"
  shows "rx_parse (c # ds) = map_option (Cons (RChar c)) (rx_parse ds)"
proof -
  obtain d ds' where ds: "ds = d # ds'" using assms(2) by (cases ds) auto
  have "c \<noteq> bsl" "c \<noteq> CHR ''.''" using assms(1) by (auto simp: esc_chars_def)
  then show ?thesis using assms(1) by (simp add: ds rx_atom_plain)
qed

lemma rx_parse_glob_source:
  "rx_parse (glob_source f @ ''$'') = Some (map glob_term f @ [REnd])"
proof (induction f)
  case Nil
  show ?case by (simp add: glob_source_Nil rx_atom_def)
next
  case (Cons c f)
  show ?case
  proof (cases "c = CHR ''*''")
    case True
    then show ?thesis using Cons by (simp add: glob_source_star glob_term_def bsl_def)
  next
    case star: False
    show ?thesis
    proof (cases "c \<in> set esc_chars")
      case True
      then show ?thesis
        using star Cons
        by (simp add: glob_source_other glob_term_def del: rx_parse.simps add: rx_parse_bsl)
    next
      case False
      have ne: "glob_source f @ ''$'' \<noteq> []" by simp
      show ?thesis
        using star False Cons rx_parse_plain[OF False ne]
        by (simp add: glob_source_other glob_term_def del: rx_parse.simps)
    qed
  qed
qed

text \<open>Every built pattern is in the fragment: the pattern of a filter segment.\<close>

lemma rx_parse_pattern_source:
  "rx_parse (pattern_source f) = Some (RBegin # map glob_term f @ [REnd])"
proof -
  have "pattern_source f = CHR ''^'' # (glob_source f @ ''$'')"
    by (simp add: pattern_source_def glob_source_def)
  moreover obtain d ds where "glob_source f @ ''$'' = d # ds"
    by (cases "glob_source f @ ''$''") auto
  ultimately show ?thesis
    using rx_parse_glob_source[of f] by (simp add: rx_atom_def bsl_def rx_syntax_def)
qed

text \<open>An anchored pattern can only match from the start of the text.\<close>

lemma rx_test_anchored: "rx_test (RBegin # r) s = rx_run r 0 s"
proof -
  have "rx_test (RBegin # r) s = (\<exists>k \<in> {0 ..< Suc (length s)}. k = 0 \<and> rx_run r k (drop k s))"
    by (simp add: rx_test_def list_ex_iff)
  also have "\<dots> = rx_run r 0 s" by auto
  finally show ?thesis .
qed

lemma rx_run_glob:
  "rx_run (map glob_term p @ [REnd]) i t = glob_rec (\<lambda>c. \<not> line_terminator c) p t"
proof (induction "\<lambda>c. \<not> line_terminator c" p t arbitrary: i rule: glob_rec.induct)
  case (1 t)
  show ?case by simp
next
  case (2 p ps)
  then show ?case by (simp add: glob_term_def)
next
  case (3 p ps x xs)
  then show ?case by (simp add: glob_term_def)
qed

lemma match_glob_rec: "match t f = glob_rec (\<lambda>c. \<not> line_terminator c) f t"
  by (simp add: match_def rx_parse_pattern_source rx_test_anchored rx_run_glob)

lemma glob_rec_skip_star: "glob_rec star ps t \<Longrightarrow> glob_rec star (CHR ''*'' # ps) t"
  by (cases t) auto

lemma glob_rec_star_append:
  "list_all star w \<Longrightarrow> glob_rec star ps xs \<Longrightarrow> glob_rec star (CHR ''*'' # ps) (w @ xs)"
  by (induction w) (auto simp: glob_rec_skip_star)

lemma glob_with_imp_rec: "glob_with star p t \<Longrightarrow> glob_rec star p t"
  by (induction rule: glob_with.induct) (auto simp: glob_rec_star_append)

inductive_cases glob_with_starE: "glob_with star (CHR ''*'' # ps) t"

lemma glob_rec_imp_with: "glob_rec star p t \<Longrightarrow> glob_with star p t"
proof (induction star p t rule: glob_rec.induct)
  case (1 star t)
  then show ?case by (auto intro: glob_with.intros)
next
  case (2 star p ps)
  then have "glob_with star ps []" by simp
  then have "glob_with star (CHR ''*'' # ps) ([] @ [])"
    by (intro glob_star) simp_all
  then show ?case using 2 by simp
next
  case (3 star p ps x xs)
  show ?case
  proof (cases "p = CHR ''*''")
    case False
    then show ?thesis using 3 by (auto intro: glob_with.intros)
  next
    case True
    from "3.prems" True consider
      (step) "star x" "glob_rec star (p # ps) xs" | (skip) "glob_rec star ps (x # xs)"
      by auto
    then show ?thesis
    proof cases
      case step
      then have "glob_with star (CHR ''*'' # ps) xs" using "3.IH"(1) True by simp
      then obtain w ys where "xs = w @ ys" "list_all star w" "glob_with star ps ys"
        by (auto elim: glob_with_starE)
      then have "glob_with star (CHR ''*'' # ps) ((x # w) @ ys)"
        using step(1) by (intro glob_star) simp_all
      then show ?thesis using True \<open>xs = w @ ys\<close> by simp
    next
      case skip
      then have "glob_with star ps (x # xs)" using "3.IH"(2) True by simp
      then have "glob_with star (CHR ''*'' # ps) ([] @ (x # xs))"
        by (intro glob_star) simp_all
      then show ?thesis using True by simp
    qed
  qed
qed

lemma glob_with_iff_rec: "glob_with star p t = glob_rec star p t"
  using glob_with_imp_rec glob_rec_imp_with by blast

lemma compare_from_list_all2:
  "length ks = length fs \<Longrightarrow> compare_from ks fs = list_all2 (\<lambda>f k. match k f) fs ks"
  by (induction ks fs rule: list_induct2) auto

lemma compare_list_all2: "compare key fs = list_all2 (\<lambda>f k. match k f) fs (split key)"
proof (cases "length (split key) = length fs")
  case True
  then show ?thesis by (simp add: compare_def compare_from_list_all2)
next
  case False
  then show ?thesis by (auto simp: compare_def dest: list_all2_lengthD)
qed

text \<open>Case folding on the printable characters, for evaluation.\<close>

lemma canon_printable:
  "canon CHR '' '' = CHR '' ''"
  "canon CHR ''!'' = CHR ''!''"
  "canon CHR ''#'' = CHR ''#''"
  "canon CHR ''$'' = CHR ''$''"
  "canon CHR ''%'' = CHR ''%''"
  "canon CHR ''&'' = CHR ''&''"
  "canon CHR ''('' = CHR ''(''"
  "canon CHR '')'' = CHR '')''"
  "canon CHR ''*'' = CHR ''*''"
  "canon CHR ''+'' = CHR ''+''"
  "canon CHR '','' = CHR '',''"
  "canon CHR ''-'' = CHR ''-''"
  "canon CHR ''.'' = CHR ''.''"
  "canon CHR ''/'' = CHR ''/''"
  "canon CHR ''0'' = CHR ''0''"
  "canon CHR ''1'' = CHR ''1''"
  "canon CHR ''2'' = CHR ''2''"
  "canon CHR ''3'' = CHR ''3''"
  "canon CHR ''4'' = CHR ''4''"
  "canon CHR ''5'' = CHR ''5''"
  "canon CHR ''6'' = CHR ''6''"
  "canon CHR ''7'' = CHR ''7''"
  "canon CHR ''8'' = CHR ''8''"
  "canon CHR ''9'' = CHR ''9''"
  "canon CHR '':'' = CHR '':''"
  "canon CHR '';'' = CHR '';''"
  "canon CHR ''<'' = CHR ''<''"
  "canon CHR ''='' = CHR ''=''"
  "canon CHR ''>'' = CHR ''>''"
  "canon CHR ''?'' = CHR ''?''"
  "canon CHR ''@'' = CHR ''@''"
  "canon CHR ''A'' = CHR ''A''"
  "canon CHR ''B'' = CHR ''B''"
  "canon CHR ''C'' = CHR ''C''"
  "canon CHR ''D'' = CHR ''D''"
  "canon CHR ''E'' = CHR ''E''"
  "canon CHR ''F'' = CHR ''F''"
  "canon CHR ''G'' = CHR ''G''"
  "canon CHR ''H'' = CHR ''H''"
  "canon CHR ''I'' = CHR ''I''"
  "canon CHR ''J'' = CHR ''J''"
  "canon CHR ''K'' = CHR ''K''"
  "canon CHR ''L'' = CHR ''L''"
  "canon CHR ''M'' = CHR ''M''"
  "canon CHR ''N'' = CHR ''N''"
  "canon CHR ''O'' = CHR ''O''"
  "canon CHR ''P'' = CHR ''P''"
  "canon CHR ''Q'' = CHR ''Q''"
  "canon CHR ''R'' = CHR ''R''"
  "canon CHR ''S'' = CHR ''S''"
  "canon CHR ''T'' = CHR ''T''"
  "canon CHR ''U'' = CHR ''U''"
  "canon CHR ''V'' = CHR ''V''"
  "canon CHR ''W'' = CHR ''W''"
  "canon CHR ''X'' = CHR ''X''"
  "canon CHR ''Y'' = CHR ''Y''"
  "canon CHR ''Z'' = CHR ''Z''"
  "canon CHR ''['' = CHR ''[''"
  "canon CHR '']'' = CHR '']''"
  "canon CHR ''^'' = CHR ''^''"
  "canon CHR ''_'' = CHR ''_''"
  "canon CHR ''a'' = CHR ''A''"
  "canon CHR ''b'' = CHR ''B''"
  "canon CHR ''c'' = CHR ''C''"
  "canon CHR ''d'' = CHR ''D''"
  "canon CHR ''e'' = CHR ''E''"
  "canon CHR ''f'' = CHR ''F''"
  "canon CHR ''g'' = CHR ''G''"
  "canon CHR ''h'' = CHR ''H''"
  "canon CHR ''i'' = CHR ''I''"
  "canon CHR ''j'' = CHR ''J''"
  "canon CHR ''k'' = CHR ''K''"
  "canon CHR ''l'' = CHR ''L''"
  "canon CHR ''m'' = CHR ''M''"
  "canon CHR ''n'' = CHR ''N''"
  "canon CHR ''o'' = CHR ''O''"
  "canon CHR ''p'' = CHR ''P''"
  "canon CHR ''q'' = CHR ''Q''"
  "canon CHR ''r'' = CHR ''R''"
  "canon CHR ''s'' = CHR ''S''"
  "canon CHR ''t'' = CHR ''T''"
  "canon CHR ''u'' = CHR ''U''"
  "canon CHR ''v'' = CHR ''V''"
  "canon CHR ''w'' = CHR ''W''"
  "canon CHR ''x'' = CHR ''X''"
  "canon CHR ''y'' = CHR ''Y''"
  "canon CHR ''z'' = CHR ''Z''"
  "canon CHR ''{'' = CHR ''{''"
  "canon CHR ''|'' = CHR ''|''"
  "canon CHR ''}'' = CHR ''}''"
  "canon CHR ''~'' = CHR ''~''"
  by (simp_all add: canon_def char_of_eq_iff)

lemma glob_with_eq_rec: "glob_with star = glob_rec star"
  by (intro ext) (rule glob_with_iff_rec)

lemmas eval_glob = glob_with_eq_rec canon_printable line_terminator_def

text \<open>
  C7, as amended. \<open>filter(M, pattern)\<close> returns exactly the entries of \<open>M\<close>, with their
  values, whose key has as many segments as the pattern and each segment of which matches
  the pattern segment: a star stands for a possibly empty run of characters other than
  line terminators (the pattern is built with \<^verbatim>\<open>.*\<close>), every other character stands
  for itself, up to letter case.
\<close>

theorem filter_js_glob: "filter_js M pat = filter_spec (\<lambda>c. \<not> line_terminator c) M pat"
  by (simp add: filter_js_def filter_spec_def compare_list_all2 match_glob_rec glob_with_eq_rec)

text \<open>The filter on three keys, two of which have the three segments of the pattern.\<close>

theorem filter_js_glob_witness:
  "filter_js [(''cns/N/name'', ''x''), (''cns/n/Name'', ''y''), (''cns/N/nodes/A/name'', ''z'')]
     ''cns/*/name''
   = [(''cns/N/name'', ''x''), (''cns/n/Name'', ''y'')]"
  using filter_js_glob[of
    "[(''cns/N/name'', ''x''), (''cns/n/Name'', ''y''), (''cns/N/nodes/A/name'', ''z'')]"
    "''cns/*/name''"]
  by (simp add: filter_spec_def eval_glob)

text \<open>
  C7 as stated, with a star standing for any run of characters, fails on a key with a
  line feed in the segment under the star: the filter drops the entry.
\<close>

theorem filter_js_star_stops_at_line_terminator:
  "filter_js [(''cns/N/nodes/A'' @ [CHR 0x0A] @ ''B/name'', ''v'')] ''cns/N/nodes/*/name''
   \<noteq> filter_spec (\<lambda>c. True) [(''cns/N/nodes/A'' @ [CHR 0x0A] @ ''B/name'', ''v'')]
        ''cns/N/nodes/*/name''"
  by (simp add: filter_js_def filter_spec_def compare_list_all2 match_glob_rec eval_glob)

section \<open>The event classifier\<close>

text \<open>
  C10. A put event whose key does not start with the segment \<open>cns\<close>, or has no second
  segment, leaves the state as it is: the cache, the timer and the writes issued. This
  holds whatever the three actions are, so none of them is reached.
\<close>

theorem onput_out_of_scope:
  assumes "hd (split key) \<noteq> ''cns'' \<or> length (split key) < 2"
  shows "onput key val s = Inr s \<and>
         onput_with do_rebuild do_update do_propagate key val s = Inr s"
proof -
  have "nth_js (split key) 0 \<noteq> Str ''cns'' \<or> nth_js (split key) 1 = Undefined"
    using assms split_on_not_Nil[of "CHR ''/''" key]
    by (cases "split key") (auto simp: nth_js_def)
  then show ?thesis by (auto simp: onput_def onput_with_def Let_def)
qed

text \<open>A key under another root, and the key \<open>cns\<close> alone.\<close>

theorem onput_out_of_scope_witness:
  "onput ''other/N/orchestrator'' ''bysystem'' (state_of []) = Inr (state_of []) \<and>
   onput ''cns'' ''v'' (state_of []) = Inr (state_of [])"
  using onput_out_of_scope[of "''other/N/orchestrator''" "''bysystem''" "state_of []"]
    onput_out_of_scope[of "''cns''" "''v''" "state_of []"]
  by simp

section \<open>Property updates\<close>

lemmas eval_filter = filter_js_def compare_list_all2 match_glob_rec canon_printable line_terminator_def

lemmas eval_update = update_def capability_ns_def flag_key_def nth_js_def obj_get_def
  getOppositeRole_def isValidMode_def put_def state_of_def

lemma put_all_client: "client s \<Longrightarrow> put_all kvs s = Inr (s\<lparr>puts := puts s @ kvs\<rparr>)"
  by (induction kvs arbitrary: s) (auto simp: put_def bind_err_def)

lemma glob_rec_refl: "star CHR ''*'' \<Longrightarrow> glob_rec star x x"
  by (induction x) (auto simp: glob_rec_skip_star)

lemma match_refl [simp]: "match x x"
  by (simp add: match_glob_rec glob_rec_refl line_terminator_def)

lemma glob_rec_star_only: "glob_rec star ''*'' t = list_all star t"
  by (induction t) auto

lemma match_star: "match t ''*'' = list_all (\<lambda>c. \<not> line_terminator c) t"
  by (simp add: match_glob_rec glob_rec_star_only)

lemma filter_js_member:
  "(k, w) \<in> set (filter_js ob pat) \<longleftrightarrow> (k, w) \<in> set ob \<and> compare k (split pat)"
  by (auto simp: filter_js_def)

text \<open>
  C4, as amended. A write of \<open>v\<close> at the connection property key
  \<open>cns/network/nodes/node/contexts/context/role/prof/connections/ident/properties/p\<close>,
  where \<open>flag\<close> is the cached provider flag of the property for the cached version of the
  capability. If the mode of the network is valid, the touched role owns the property
  (provider with flag \<open>yes\<close>, consumer with another flag or none) and the link to the
  opposite endpoint \<open>other\<close> is cached, then \<open>update\<close> issues exactly one write, of \<open>v\<close> at
  \<open>other/opposite/prof/connections/ident/properties/p\<close>. If the touched role does not
  own the property, \<open>update\<close> issues no write.
\<close>

theorem update_owner_write:
  assumes segs: "list_all segment [network, node, context, role, prof, ident, p]"
    and key: "key = join ''/'' [''cns'', network, ''nodes'', node, ''contexts'', context, role, prof,
                ''connections'', ident, ''properties'', p]"
    and ns: "ns = join ''/'' [''cns'', network, ''nodes'', node, ''contexts'', context, role, prof]"
    and flag: "flag = obj_get (cache s)
                (flag_key (Str network) (Str prof) (obj_get (cache s) (ns @ ''/version'')) (Str p))"
  shows "(isValidMode (obj_get (cache s) (''cns/'' @ network @ ''/orchestrator'')) \<and> client s \<and>
          (role = ''provider'' \<and> flag = Str ''yes'' \<and> opposite = ''consumer'' \<or>
           role = ''consumer'' \<and> flag \<noteq> Str ''yes'' \<and> opposite = ''provider'') \<and>
          obj_get (cache s) (ns @ ''/connections/'' @ ident @ ''/'' @ opposite) = Str other
          \<longrightarrow> update key v s =
              Inr (s\<lparr>puts := puts s @
                [(other @ ''/'' @ opposite @ ''/'' @ prof @ ''/connections/'' @ ident @
                  ''/properties/'' @ p, v)]\<rparr>))
       \<and> ((role = ''provider'' \<and> flag \<noteq> Str ''yes'' \<or> role = ''consumer'' \<and> flag = Str ''yes'')
          \<longrightarrow> update key v s = Inr s)"
proof -
  have parts: "split key = [''cns'', network, ''nodes'', node, ''contexts'', context, role, prof,
                ''connections'', ident, ''properties'', p]"
    unfolding key using segs by (intro split_join) (simp_all add: segment_def)
  have cap: "capability_ns (split key) = ns"
    by (simp add: parts capability_ns_def nth_js_def ns)
  have nth: "nth_js (split key) (Suc 0) = Str network" "nth_js (split key) 6 = Str role"
    "nth_js (split key) 7 = Str prof" "nth_js (split key) 9 = Str ident"
    "nth_js (split key) 11 = Str p"
    by (simp_all add: parts nth_js_def)
  have upd: "update key v s =
      (if \<not> isValidMode (obj_get (cache s) (''cns/'' @ network @ ''/orchestrator'')) then Inr s
       else if getOppositeRole (Str role) flag = Null then Inr s
       else put (to_str (obj_get (cache s)
                   (ns @ ''/connections/'' @ ident @ ''/'' @ to_str (getOppositeRole (Str role) flag))) @
                 ''/'' @ to_str (getOppositeRole (Str role) flag) @ ''/'' @ prof @
                 ''/connections/'' @ ident @ ''/properties/'' @ p) v s)"
    by (simp add: update_def Let_def cap nth flag[symmetric])
  have owner: "update key v s =
      Inr (s\<lparr>puts := puts s @
        [(other @ ''/'' @ opposite @ ''/'' @ prof @ ''/connections/'' @ ident @ ''/properties/'' @ p, v)]\<rparr>)"
    if "isValidMode (obj_get (cache s) (''cns/'' @ network @ ''/orchestrator''))" "client s"
      "getOppositeRole (Str role) flag = Str opposite"
      "obj_get (cache s) (ns @ ''/connections/'' @ ident @ ''/'' @ opposite) = Str other"
    using that by (simp add: upd put_def)
  have other: "update key v s = Inr s" if "getOppositeRole (Str role) flag = Null"
    using that by (simp add: upd)
  have opp1: "getOppositeRole (Str role) flag = Str opposite"
    if "role = ''provider'' \<and> flag = Str ''yes'' \<and> opposite = ''consumer'' \<or>
        role = ''consumer'' \<and> flag \<noteq> Str ''yes'' \<and> opposite = ''provider''"
    using that by (auto simp: getOppositeRole_def)
  have opp2: "getOppositeRole (Str role) flag = Null"
    if "role = ''provider'' \<and> flag \<noteq> Str ''yes'' \<or> role = ''consumer'' \<and> flag = Str ''yes''"
    using that by (auto simp: getOppositeRole_def)
  show ?thesis using owner other opp1 opp2 by blast
qed

text \<open>
  The provider owns \<open>x\<close>: its write reaches the consumer's side of connection \<open>c7\<close>, a
  write of the consumer reaches nothing.
\<close>

theorem update_owner_write_witness:
  "update ''cns/N/nodes/A/contexts/X/provider/p1/connections/c7/properties/x'' ''v''
     (state_of linked_cache)
   = Inr ((state_of linked_cache)\<lparr>puts :=
       [(''cns/N/nodes/B/contexts/X/consumer/p1/connections/c7/properties/x'', ''v'')]\<rparr>) \<and>
   update ''cns/N/nodes/B/contexts/X/consumer/p1/connections/c7/properties/x'' ''v''
     (state_of linked_cache)
   = Inr (state_of linked_cache)"
  using update_owner_write[of "''N''" "''A''" "''X''" "''provider''" "''p1''" "''c7''" "''x''"
      _ _ _ "state_of linked_cache" "''consumer''" "''cns/N/nodes/B/contexts/X''" "''v''", OF _ refl refl refl]
    update_owner_write[of "''N''" "''B''" "''X''" "''consumer''" "''p1''" "''c7''" "''x''"
      _ _ _ "state_of linked_cache" "''provider''" "''cns/N/nodes/A/contexts/X''" "''v''", OF _ refl refl refl]
  by (simp add: segment_def flag_key_def obj_get_def isValidMode_def state_of_def linked_cache_def)

text \<open>
  C4 as stated says nothing of the mode. Here the provider owns \<open>x\<close> and the link is
  cached, but the network has no orchestrator mode, and \<open>update\<close> issues no write.
\<close>

theorem update_needs_valid_mode:
  "update ''cns/N/nodes/A/contexts/X/provider/p1/connections/c7/properties/x'' ''v''
     (state_of modeless_cache) = Inr (state_of modeless_cache) \<and>
   obj_get modeless_cache ''cns/N/nodes/A/contexts/X/provider/p1/version'' = Str ''1'' \<and>
   obj_get modeless_cache ''cns/N/profiles/p1/versions/version1/properties/x/provider'' = Str ''yes'' \<and>
   obj_get modeless_cache ''cns/N/nodes/A/contexts/X/provider/p1/connections/c7/consumer''
     = Str ''cns/N/nodes/B/contexts/X''"
  by (simp add: eval_update modeless_cache_def linked_cache_def)

text \<open>
  C9 does not hold of the code. The capability has no version key, the touched role is
  the consumer, and \<open>update\<close> still writes to the provider's side: a read of the cache
  yields \<^verbatim>\<open>undefined\<close> for an absent key, which the guard \<^verbatim>\<open>version === null\<close> lets pass.
\<close>

theorem update_without_version_puts:
  "obj_get versionless_cache ''cns/N/nodes/B/contexts/X/consumer/p1/version'' = Undefined \<and>
   update ''cns/N/nodes/B/contexts/X/consumer/p1/connections/c7/properties/q'' ''v''
     (state_of versionless_cache)
   = Inr ((state_of versionless_cache)\<lparr>puts :=
       [(''cns/N/nodes/A/contexts/X/provider/p1/connections/c7/properties/q'', ''v'')]\<rparr>)"
  by (simp add: eval_update versionless_cache_def)

text \<open>
  C5, as amended. A write of \<open>v\<close> at the default property key
  \<open>cns/network/nodes/node/contexts/context/role/prof/properties/p\<close> of the capability
  \<open>ns\<close>. If the mode of the network is valid and the touched role owns the property, then
  \<open>propagate\<close> issues one write of \<open>v\<close> for every cached key that the filter finds for
  \<open>ns/connections/*/opposite\<close>, at that key with its last segment replaced by
  \<open>properties/p\<close>, and nothing else. In particular every cached connection record
  \<open>ns/connections/ident/opposite\<close> of the capability itself, with an identifier free of
  line terminators, has \<open>v\<close> written at \<open>ns/connections/ident/properties/p\<close>.
\<close>

theorem propagate_owner_write:
  assumes segs: "list_all segment [network, node, context, role, prof, p]"
    and key: "key = join ''/'' [''cns'', network, ''nodes'', node, ''contexts'', context, role, prof,
                ''properties'', p]"
    and ns: "ns = join ''/'' [''cns'', network, ''nodes'', node, ''contexts'', context, role, prof]"
    and flag: "flag = obj_get (cache s)
                (flag_key (Str network) (Str prof) (obj_get (cache s) (ns @ ''/version'')) (Str p))"
    and mode: "isValidMode (obj_get (cache s) (''cns/'' @ network @ ''/orchestrator''))"
    and owner: "role = ''provider'' \<and> flag = Str ''yes'' \<and> opposite = ''consumer'' \<or>
                role = ''consumer'' \<and> flag \<noteq> Str ''yes'' \<and> opposite = ''provider''"
    and client: "client s"
  shows "propagate key v s =
           Inr (s\<lparr>puts := puts s @
             map (\<lambda>(k, w). (join ''/'' (butlast (split k) @ [''properties'', p]), v))
               (filter_js (cache s) (ns @ ''/connections/*/'' @ opposite))\<rparr>) \<and>
         (\<forall>ident other.
            (ns @ ''/connections/'' @ ident @ ''/'' @ opposite, other) \<in> set (cache s) \<and>
            segment ident \<and> list_all (\<lambda>c. \<not> line_terminator c) ident \<longrightarrow>
            (\<exists>s'. propagate key v s = Inr s' \<and>
               (ns @ ''/connections/'' @ ident @ ''/properties/'' @ p, v) \<in> set (puts s')))"
proof -
  have parts: "split key = [''cns'', network, ''nodes'', node, ''contexts'', context, role, prof,
                ''properties'', p]"
    unfolding key using segs by (intro split_join) (simp_all add: segment_def)
  have cap: "capability_ns (split key) = ns"
    by (simp add: parts capability_ns_def nth_js_def ns)
  have nth: "nth_js (split key) (Suc 0) = Str network" "nth_js (split key) 6 = Str role"
    "nth_js (split key) 7 = Str prof" "nth_js (split key) 9 = Str p"
    by (simp_all add: parts nth_js_def)
  have opp: "getOppositeRole (Str role) flag = Str opposite"
    using owner by (auto simp: getOppositeRole_def)
  have run: "propagate key v s =
      put_all (map (\<lambda>(k, w). (join ''/'' (butlast (split k) @ [''properties'', p]), v))
                (filter_js (cache s) (ns @ ''/connections/*/'' @ opposite))) s"
    using mode by (simp add: propagate_def Let_def cap nth flag[symmetric] opp)
  have first: "propagate key v s =
           Inr (s\<lparr>puts := puts s @
             map (\<lambda>(k, w). (join ''/'' (butlast (split k) @ [''properties'', p]), v))
               (filter_js (cache s) (ns @ ''/connections/*/'' @ opposite))\<rparr>)"
    by (simp add: run put_all_client client)
  have oseg: "segment opposite" using owner by (auto simp: segment_def)
  have second: "(ns @ ''/connections/'' @ ident @ ''/properties/'' @ p, v)
        \<in> set (map (\<lambda>(k, w). (join ''/'' (butlast (split k) @ [''properties'', p]), v))
               (filter_js (cache s) (ns @ ''/connections/*/'' @ opposite)))"
    if rec: "(ns @ ''/connections/'' @ ident @ ''/'' @ opposite, other) \<in> set (cache s)"
      and iseg: "segment ident" and nolt: "list_all (\<lambda>c. \<not> line_terminator c) ident"
    for ident other
  proof -
    let ?K = "ns @ ''/connections/'' @ ident @ ''/'' @ opposite"
    have K: "?K = join ''/'' [''cns'', network, ''nodes'', node, ''contexts'', context, role, prof,
                ''connections'', ident, opposite]"
      by (simp add: ns)
    have splitK: "split ?K = [''cns'', network, ''nodes'', node, ''contexts'', context, role, prof,
                ''connections'', ident, opposite]"
      unfolding K using segs iseg oseg by (intro split_join) (simp_all add: segment_def)
    have P: "ns @ ''/connections/*/'' @ opposite =
       join ''/'' [''cns'', network, ''nodes'', node, ''contexts'', context, role, prof,
                ''connections'', ''*'', opposite]"
      by (simp add: ns)
    have splitP: "split (ns @ ''/connections/*/'' @ opposite) =
       [''cns'', network, ''nodes'', node, ''contexts'', context, role, prof,
                ''connections'', ''*'', opposite]"
      unfolding P using segs oseg by (intro split_join) (simp_all add: segment_def)
    have "compare ?K (split (ns @ ''/connections/*/'' @ opposite))"
      unfolding compare_list_all2 splitK splitP using nolt by (simp add: match_star)
    then have mem: "(?K, other) \<in> set (filter_js (cache s) (ns @ ''/connections/*/'' @ opposite))"
      using rec by (simp add: filter_js_member)
    have "join ''/'' (butlast (split ?K) @ [''properties'', p])
          = ns @ ''/connections/'' @ ident @ ''/properties/'' @ p"
      unfolding splitK by (simp add: ns)
    then show ?thesis using mem by force
  qed
  show ?thesis using first second by auto
qed

text \<open>Two connections of the provider capability: both receive \<open>v\<close>.\<close>

theorem propagate_owner_write_witness:
  "propagate ''cns/N/nodes/A/contexts/X/provider/p1/properties/x'' ''v'' (state_of fanout_cache)
   = Inr ((state_of fanout_cache)\<lparr>puts :=
       [(''cns/N/nodes/A/contexts/X/provider/p1/connections/c7/properties/x'', ''v''),
        (''cns/N/nodes/A/contexts/X/provider/p1/connections/c8/properties/x'', ''v'')]\<rparr>)"
proof -
  have flt: "filter_js fanout_cache ''cns/N/nodes/A/contexts/X/provider/p1/connections/*/consumer''
     = [(''cns/N/nodes/A/contexts/X/provider/p1/connections/c7/consumer'', ''cns/N/nodes/B/contexts/X''),
        (''cns/N/nodes/A/contexts/X/provider/p1/connections/c8/consumer'', ''cns/N/nodes/C/contexts/X'')]"
    by (simp add: fanout_cache_def eval_filter)
  have lk: "obj_get fanout_cache ''cns/N/orchestrator'' = Str ''bysystem''"
    "obj_get fanout_cache ''cns/N/nodes/A/contexts/X/provider/p1/version'' = Str ''1''"
    "obj_get fanout_cache ''cns/N/profiles/p1/versions/version1/properties/x/provider'' = Str ''yes''"
    by (simp_all add: fanout_cache_def obj_get_def)
  show ?thesis
    using propagate_owner_write[of "''N''" "''A''" "''X''" "''provider''" "''p1''" "''x''"
      _ _ _ "state_of fanout_cache" "''consumer''" "''v''", OF _ refl refl refl]
    by (simp add: segment_def flag_key_def isValidMode_def state_of_def lk flt)
qed

text \<open>
  C5 as stated fails in two ways. Without an orchestrator mode \<open>propagate\<close> issues no
  write although the provider owns \<open>x\<close> and has a connection. And the filter compares
  segments without regard to letter case, so a write at the capability of node \<open>A\<close>
  reaches the connection record of node \<open>a\<close>: the key written is built from the key
  found, not from \<open>ns\<close>.
\<close>

theorem propagate_needs_valid_mode:
  "propagate ''cns/N/nodes/A/contexts/X/provider/p1/properties/x'' ''v'' (state_of modeless_cache)
     = Inr (state_of modeless_cache) \<and>
   obj_get modeless_cache ''cns/N/profiles/p1/versions/version1/properties/x/provider'' = Str ''yes'' \<and>
   obj_get modeless_cache ''cns/N/nodes/A/contexts/X/provider/p1/connections/c7/consumer''
     = Str ''cns/N/nodes/B/contexts/X'' \<and>
   propagate ''cns/N/nodes/A/contexts/X/provider/p1/properties/x'' ''v'' (state_of variant_cache)
     = Inr ((state_of variant_cache)\<lparr>puts :=
         [(''cns/N/nodes/a/contexts/X/provider/p1/connections/c8/properties/x'', ''v'')]\<rparr>)"
proof -
  have flt: "filter_js variant_cache ''cns/N/nodes/A/contexts/X/provider/p1/connections/*/consumer''
     = [(''cns/N/nodes/a/contexts/X/provider/p1/connections/c8/consumer'', ''cns/N/nodes/C/contexts/X'')]"
    by (simp add: variant_cache_def eval_filter)
  have lk: "obj_get variant_cache ''cns/N/orchestrator'' = Str ''bysystem''"
    "obj_get variant_cache ''cns/N/nodes/A/contexts/X/provider/p1/version'' = Str ''1''"
    "obj_get variant_cache ''cns/N/profiles/p1/versions/version1/properties/x/provider'' = Str ''yes''"
    by (simp_all add: variant_cache_def obj_get_def)
  have a: "propagate ''cns/N/nodes/A/contexts/X/provider/p1/properties/x'' ''v'' (state_of modeless_cache)
     = Inr (state_of modeless_cache)"
    by (simp add: propagate_def capability_ns_def nth_js_def obj_get_def isValidMode_def
        state_of_def modeless_cache_def linked_cache_def)
  have b: "obj_get modeless_cache ''cns/N/profiles/p1/versions/version1/properties/x/provider'' = Str ''yes''"
    "obj_get modeless_cache ''cns/N/nodes/A/contexts/X/provider/p1/connections/c7/consumer''
     = Str ''cns/N/nodes/B/contexts/X''"
    by (simp_all add: obj_get_def modeless_cache_def linked_cache_def)
  have c: "propagate ''cns/N/nodes/A/contexts/X/provider/p1/properties/x'' ''v'' (state_of variant_cache)
     = Inr ((state_of variant_cache)\<lparr>puts :=
         [(''cns/N/nodes/a/contexts/X/provider/p1/connections/c8/properties/x'', ''v'')]\<rparr>)"
    by (simp add: propagate_def capability_ns_def flag_key_def nth_js_def getOppositeRole_def
        isValidMode_def state_of_def lk flt put_def bind_err_def)
  show ?thesis using a b c by simp
qed

section \<open>The connection writer\<close>

lemma filter_js_found: "filter_js (cache s) pat = found s pat"
  by (simp add: found_def filter_js_def filter_spec_def compare_list_all2 match_glob_rec
      glob_with_eq_rec)

lemma first_with_None: "first_with ob v = None \<longleftrightarrow> \<not> list_ex (\<lambda>(k, v'). v' = v) ob"
  by (auto simp: first_with_def find_None_iff list_ex_iff)

lemma first_with_Some: "first_with ob v = Some k \<Longrightarrow> list_ex (\<lambda>(k, v'). v' = v) ob"
  using first_with_None[of ob v] by auto





lemma obj_set_proto: "''__proto__'' \<notin> fst ` set ob \<Longrightarrow> obj_set ob ''__proto__'' v = ob"
  by (simp add: obj_set_def)









text \<open>The loop body, by the two flags.\<close>

lemma connection_unfold:
  assumes "client s"
  shows "connection gen c s =
    (if provider_linked s c \<and> consumer_linked s c then Inr s
     else
       (let id1 = (case first_with (provider_records s c) (consumer c) of
                     Some key \<Rightarrow> nth_js (split key) 9 | None \<Rightarrow> Null);
            id2 = (case first_with (consumer_records s c) (provider c) of
                     Some key \<Rightarrow> nth_js (split key) 9 | None \<Rightarrow> id1);
            props = merge_defaults (merge_defaults []
                      (found_defaults s (provider c) ''provider'' (profile c)))
                      (found_defaults s (consumer c) ''consumer'' (profile c));
            ident = (if id2 = Null then gen (ids s) else to_str id2)
        in Inr (s\<lparr>ids := (if id2 = Null then Suc (ids s) else ids s),
                  puts := puts s @
                    (if provider_linked s c then []
                     else side_writes (connection_ns (provider c) ''provider'' (profile c) ident)
                            ''consumer'' (consumer c) props) @
                    (if consumer_linked s c then []
                     else side_writes (connection_ns (consumer c) ''consumer'' (profile c) ident)
                            ''provider'' (provider c) props)\<rparr>)))"
proof -
  have pl: "provider_linked s c \<longleftrightarrow> first_with (provider_records s c) (consumer c) \<noteq> None"
    by (simp add: provider_linked_def first_with_None)
  have cl: "consumer_linked s c \<longleftrightarrow> first_with (consumer_records s c) (provider c) \<noteq> None"
    by (simp add: consumer_linked_def first_with_None)
  have fp: "found_defaults s (provider c) ''provider'' (profile c) =
      found s (provider c @ ''/provider/'' @ to_str (profile c) @ ''/properties/*'')"
    and fc: "found_defaults s (consumer c) ''consumer'' (profile c) =
      found s (consumer c @ ''/consumer/'' @ to_str (profile c) @ ''/properties/*'')"
    by (simp_all add: found_defaults_def)
  show ?thesis
    unfolding pl cl connection_def filter_js_found fp fc
      provider_records_def[symmetric] consumer_records_def[symmetric]
    using assms
    by (cases "first_with (provider_records s c) (consumer c)";
        cases "first_with (consumer_records s c) (provider c)")
       (simp_all add: Let_def bind_err_def put_def put_all_client side_writes_def connection_ns_def)
qed

section \<open>The matchmaker\<close>

lemma split_endpoint:
  assumes "segment (to_str n)" "segment (to_str nd)" "segment (to_str cx)"
  shows "split (endpoint n nd cx) = [''cns'', to_str n, ''nodes'', to_str nd, ''contexts'', to_str cx]"
proof -
  have "endpoint n nd cx = join ''/'' [''cns'', to_str n, ''nodes'', to_str nd, ''contexts'', to_str cx]"
    by (simp add: endpoint_def)
  then show ?thesis
    using assms by (simp only: segment_def) (intro split_join, simp_all)
qed

lemma foldl_invariant:
  "P a \<Longrightarrow> (\<And>a x. x \<in> set xs \<Longrightarrow> P a \<Longrightarrow> P (f a x)) \<Longrightarrow> P (foldl f a xs)"
  by (induction xs arbitrary: a) auto

lemma foldl_append:
  "(\<And>a x. x \<in> set xs \<Longrightarrow> f a x = a @ g x) \<Longrightarrow> foldl f a xs = a @ concat (map g xs)"
  by (induction xs arbitrary: a) auto

lemma capabilities_loop:
  "foldl (\<lambda>add (key, v). if v = vers then add @ [c] else add) add caps
   = add @ map (\<lambda>_. c) (filter (\<lambda>(k, v). v = vers) caps)"
  by (induction caps arbitrary: add) auto

lemma concat_map_pairs:
  "concat (map (\<lambda>(a, b). H a b) (concat (map (\<lambda>(nk, u). map (\<lambda>(ck, u'). (N nk, C ck)) (X nk)) xs)))
   = concat (map (\<lambda>(nk, u). concat (map (\<lambda>(ck, u'). H (N nk) (C ck)) (X nk))) xs)"
  by (induction xs) (auto simp: comp_def case_prod_unfold)

lemma if_append: "(if b then a @ x else a) = a @ (if b then x else [])"
  by simp

text \<open>The three loops of \<^verbatim>\<open>bysystem\<close> as one list of contributions.\<close>

lemma bysystem_candidates:
  "bysystem s network prov prof vers scope add =
     add @ concat (map (\<lambda>(node, context).
                     if context = scope
                     then consumer_candidates s prov prof vers network node context else [])
                (consumer_endpoints s network))"
proof -
  let ?h = "\<lambda>node context. if context = scope
              then consumer_candidates s prov prof vers network node context else []"
  let ?ctxs = "\<lambda>node. found s
      (''cns/'' @ to_str network @ ''/nodes/'' @ to_str node @ ''/contexts/*/name'')"
  have "bysystem s network prov prof vers scope add =
     foldl (\<lambda>add (nk, _). foldl (\<lambda>add (ck, _). add @ ?h (nth_js (split nk) 3) (nth_js (split ck) 5))
                 add (?ctxs (nth_js (split nk) 3)))
       add (found s (''cns/'' @ to_str network @ ''/nodes/*/name''))"
    unfolding bysystem_def Let_def capabilities_loop filter_js_found
    unfolding if_append consumer_candidates_def by simp
  also have "\<dots> = add @ concat (map (\<lambda>(nk, _).
        concat (map (\<lambda>(ck, _). ?h (nth_js (split nk) 3) (nth_js (split ck) 5))
                 (?ctxs (nth_js (split nk) 3))))
       (found s (''cns/'' @ to_str network @ ''/nodes/*/name'')))"
    by (intro foldl_append) (auto intro!: foldl_append)
  also have "\<dots> = add @ concat (map (\<lambda>(node, context). ?h node context) (consumer_endpoints s network))"
    unfolding consumer_endpoints_def by (simp only: concat_map_pairs)
  finally show ?thesis .
qed

lemma consumer_endpoints_segments:
  "(node, context) \<in> set (consumer_endpoints s network) \<Longrightarrow>
   segment (to_str node) \<and> segment (to_str context)"
  by (auto simp: consumer_endpoints_def)

text \<open>Every candidate the matchmaker emits has endpoints of six segments.\<close>

lemma bysystem_wf:
  assumes "segment (to_str network)" "length (split prov) = 6" "list_all well_formed add"
  shows "list_all well_formed (bysystem s network prov prof vers scope add)"
proof -
  have "well_formed c"
    if "(node, cx) \<in> set (consumer_endpoints s network)"
      "c \<in> set (consumer_candidates s prov prof vers network node cx)" for node cx c
    using that assms(1,2) consumer_endpoints_segments[OF that(1)]
    by (auto simp: consumer_candidates_def well_formed_def split_endpoint)
  then show ?thesis
    using assms(3) by (auto simp: bysystem_candidates list_all_iff split: if_splits)
qed

lemma allsystems_wf:
  assumes "length (split prov) = 6" "list_all well_formed add"
  shows "list_all well_formed (allsystems s prov prof vers scope add)"
  unfolding allsystems_def
  apply (rule foldl_invariant[where P="list_all well_formed"])
   apply (rule assms)
  apply (clarsimp simp: bysystem_wf assms)
  done

lemma consumers_wf:
  assumes "segment (to_str network)" "segment (to_str node)" "segment (to_str context)"
    "list_all well_formed add"
  shows "list_all well_formed (consumers s mode network node context prof vers add)"
  using assms by (simp add: consumers_def Let_def allsystems_wf bysystem_wf split_endpoint)

lemma build_network_wf:
  assumes "segment (to_str network)" "list_all well_formed add"
  shows "list_all well_formed (build_network s mode network add)"
  unfolding build_network_def Let_def
  apply (rule foldl_invariant[where P="list_all well_formed"])
   apply (rule assms)
  apply clarsimp
  apply (rule foldl_invariant[where P="list_all well_formed"])
   apply assumption
  apply clarsimp
  apply (rule foldl_invariant[where P="list_all well_formed"])
   apply assumption
  apply (clarsimp simp: consumers_wf assms)
  done

lemma build_networks_wf:
  "build_networks s nets add = Some add' \<Longrightarrow> list_all well_formed add \<Longrightarrow> list_all well_formed add'"
proof (induction nets arbitrary: add)
  case Nil
  then show ?case by simp
next
  case (Cons kv nets)
  obtain k v where kv: "kv = (k, v)" by (cases kv)
  show ?case
    using Cons.prems Cons.IH[of "build_network s (obj_get (cache s) (''cns/'' @ to_str (nth_js (split k) 1) @ ''/orchestrator'')) (nth_js (split k) 1) add"]
    by (auto simp: kv Let_def build_network_wf split: if_splits)
qed

lemma build_networks_invalid:
  assumes "(k, v) \<in> set nets"
    and "\<not> isValidMode (obj_get (cache s) (''cns/'' @ to_str (nth_js (split k) 1) @ ''/orchestrator''))"
  shows "build_networks s nets add = None"
  using assms(1)
proof (induction nets arbitrary: add)
  case Nil
  then show ?case by simp
next
  case (Cons kv nets)
  obtain k' v' where kv: "kv = (k', v')" by (cases kv)
  show ?case
  proof (cases "(k, v) = kv")
    case True
    then show ?thesis using assms(2) by (simp add: kv[symmetric] Let_def) (simp add: kv)
  next
    case False
    then have "(k, v) \<in> set nets" using Cons.prems by simp
    then show ?thesis using Cons.IH by (simp add: kv Let_def)
  qed
qed

section \<open>Scenario S1\<close>

text \<open>Rules that evaluate the filter, the matchmaker and the connection writer on a given cache.\<close>

lemmas eval_cache = filter_js_def compare_def match_refl match_glob_rec canon_printable
  line_terminator_def

lemmas eval_matchmaker = eval_cache nth_js_def obj_get_def isValidMode_def build_network_def
  consumers_def bysystem_def allsystems_def endpoint_def

lemmas eval_connection = connection_def eval_cache first_with_def merge_defaults_def obj_set_def
  is_array_index_def is_digit_def nth_js_def put_def bind_err_def short_ids_def

lemma pair_AB_simps:
  "provider pair_AB = ''cns/N/nodes/A/contexts/X''" "consumer pair_AB = ''cns/N/nodes/B/contexts/X''"
  "profile pair_AB = Str ''p1''" "version pair_AB = ''1''"
  by (simp_all add: pair_AB_def)

lemma state_of_simps:
  "cache (state_of c) = c" "client (state_of c)" "puts (state_of c) = []" "ids (state_of c) = 0"
  by (simp_all add: state_of_def)

lemma pair_cache_candidates:
  assumes "cache s = pair_cache"
  shows "build_networks s (filter_js (cache s) ''cns/*/name'') [] = Some [pair_AB]"
  unfolding assms pair_cache_def pair_AB_def by (simp add: eval_matchmaker assms pair_cache_def)

lemma pair_cache_unlinked:
  assumes "cache s = pair_cache"
  shows "\<not> provider_linked s pair_AB" "\<not> consumer_linked s pair_AB"
  by (simp_all add: provider_linked_def provider_records_def consumer_linked_def consumer_records_def
      filter_js_found[symmetric] assms pair_cache_def pair_AB_def eval_cache)

lemma pair_cache_connection:
  "connection short_ids pair_AB (state_of pair_cache) = Inr linked_pair_state"
  by (simp add: eval_connection pair_AB_def state_of_def pair_cache_def linked_pair_state_def
      pair_links_def)

lemma pair_cache_build: "build short_ids (state_of pair_cache) = Inr linked_pair_state"
  unfolding build_def pair_cache_candidates[OF state_of_simps(1)]
  by (simp add: pair_cache_connection bind_err_def)

section \<open>Both sides of a connection\<close>

lemma store_after_map: "store_after st ws = st ++ map_of (rev ws)"
proof (induction ws arbitrary: st)
  case Nil
  show ?case by (simp add: store_after_def)
next
  case (Cons w ws)
  obtain k v where w: "w = (k, v)" by (cases w)
  have "store_after st (w # ws) = store_after (st(k \<mapsto> v)) ws"
    by (simp add: store_after_def w)
  then show ?case using Cons[of "st(k \<mapsto> v)"]
    by (auto simp: w fun_eq_iff map_add_def split: option.splits)
qed

lemma store_after_last_write:
  "k \<notin> fst ` set ws' \<Longrightarrow> store_after st (ws @ (k, v) # ws') k = Some v"
  by (simp add: store_after_map map_add_def map_of_eq_None_iff[THEN iffD2] split: option.splits)

lemma nth_split_role:
  assumes "length (split ep) = n" "segment role"
  shows "split (ep @ ''/'' @ role @ ''/'' @ rest) ! n = role"
proof -
  have "split (ep @ ''/'' @ role @ ''/'' @ rest) = split ep @ [role] @ split rest"
    using assms(2) by (simp add: split_on_append_sep split_on_segment segment_def)
  then show ?thesis using assms(1) by (simp add: nth_append)
qed

lemma side_keys_differ:
  assumes "length (split p) = 6" "length (split q) = 6"
  shows "p @ ''/provider/'' @ x \<noteq> q @ ''/consumer/'' @ y"
proof
  assume eq: "p @ ''/provider/'' @ x = q @ ''/consumer/'' @ y"
  have "split (p @ ''/provider/'' @ x) ! 6 = ''provider''"
    using nth_split_role[OF assms(1), of "''provider''" x] by (simp add: segment_def)
  moreover have "split (q @ ''/consumer/'' @ y) ! 6 = ''consumer''"
    using nth_split_role[OF assms(2), of "''consumer''" y] by (simp add: segment_def)
  ultimately show False using eq by simp
qed

lemma keys_append_Cons:
  "x \<in> fst ` set (ws @ (k, v) # ws') \<Longrightarrow> x \<in> fst ` set ws \<or> x = k \<or> x \<in> fst ` set ws'"
  by auto

text \<open>
  C1, as amended. A candidate \<open>c\<close> that the matchmaker emits, processed with a connected
  client in a state in which no record found under
  \<open>provider/provider/profile/connections/*/consumer\<close> has the consumer prefix as its value
  and no record found under \<open>consumer/consumer/profile/connections/*/provider\<close> has the
  provider prefix as its value: the pattern is read segment by segment and up to letter
  case, so that a record of an endpoint whose name differs in letter case counts. Then
  the loop body draws the identifier \<open>gen (ids s)\<close> and, whatever the store held, after
  its writes the store holds the provider-side key with the consumer prefix as its value
  and the consumer-side key with the provider prefix as its value, under that identifier.
\<close>

theorem connection_links_both_sides:
  assumes emitted: "build_networks s (filter_js (cache s) ''cns/*/name'') [] = Some add" "c \<in> set add"
    and fresh: "\<not> provider_linked s c" "\<not> consumer_linked s c"
    and cli: "client s"
  shows "\<exists>s'. connection gen c s = Inr s' \<and>
      store_after st (puts s')
        (provider c @ ''/provider/'' @ to_str (profile c) @ ''/connections/'' @ gen (ids s) @ ''/consumer'')
        = Some (consumer c) \<and>
      store_after st (puts s')
        (consumer c @ ''/consumer/'' @ to_str (profile c) @ ''/connections/'' @ gen (ids s) @ ''/provider'')
        = Some (provider c)"
proof -
  have wf: "well_formed c"
    using build_networks_wf[OF emitted(1)] emitted(2) by (simp add: list_all_iff)
  define props where "props = merge_defaults (merge_defaults []
      (found_defaults s (provider c) ''provider'' (profile c)))
      (found_defaults s (consumer c) ''consumer'' (profile c))"
  define nsp where "nsp = connection_ns (provider c) ''provider'' (profile c) (gen (ids s))"
  define nsc where "nsc = connection_ns (consumer c) ''consumer'' (profile c) (gen (ids s))"
  define wp where "wp = map (\<lambda>(name, v). (nsp @ ''properties/'' @ name, v)) props"
  define wc where "wc = map (\<lambda>(name, v). (nsc @ ''properties/'' @ name, v)) props"
  define s' where "s' = s\<lparr>ids := Suc (ids s),
      puts := puts s @ (nsp @ ''consumer'', consumer c) # wp @ (nsc @ ''provider'', provider c) # wc\<rparr>"
  have none: "first_with (provider_records s c) (consumer c) = None"
    "first_with (consumer_records s c) (provider c) = None"
    using fresh by (simp_all add: first_with_None provider_linked_def consumer_linked_def)
  have run: "connection gen c s = Inr s'"
    using fresh
    by (simp add: connection_unfold[OF cli] none Let_def s'_def side_writes_def
        props_def nsp_def nsc_def wp_def wc_def)
  have pk: "nsp @ ''consumer'' =
      provider c @ ''/provider/'' @ to_str (profile c) @ ''/connections/'' @ gen (ids s) @ ''/consumer''"
    by (simp add: nsp_def connection_ns_def)
  have ck: "nsc @ ''provider'' =
      consumer c @ ''/consumer/'' @ to_str (profile c) @ ''/connections/'' @ gen (ids s) @ ''/provider''"
    by (simp add: nsc_def connection_ns_def)
  have d1: "nsp @ ''consumer'' \<notin> fst ` set wp"
    by (auto simp: wp_def)
  have d2: "nsp @ ''consumer'' \<noteq> nsc @ ''provider''"
    using side_keys_differ[of "provider c" "consumer c"] wf
    by (simp add: nsp_def nsc_def connection_ns_def well_formed_def)
  have d3: "nsp @ ''consumer'' \<notin> fst ` set wc"
    using side_keys_differ[of "provider c" "consumer c"] wf
    by (auto simp: wc_def nsp_def nsc_def connection_ns_def well_formed_def)
  have d4: "nsc @ ''provider'' \<notin> fst ` set wc"
    by (auto simp: wc_def)
  have a: "store_after st (puts s') (nsp @ ''consumer'') = Some (consumer c)"
  proof -
    have "nsp @ ''consumer'' \<notin> fst ` set (wp @ (nsc @ ''provider'', provider c) # wc)"
      using d1 d2 d3 keys_append_Cons[of "nsp @ ''consumer''" wp "nsc @ ''provider''" "provider c" wc]
      by blast
    then have "store_after st
        (puts s @ (nsp @ ''consumer'', consumer c) # wp @ (nsc @ ''provider'', provider c) # wc)
        (nsp @ ''consumer'') = Some (consumer c)"
      by (rule store_after_last_write)
    moreover have "puts s' =
        puts s @ (nsp @ ''consumer'', consumer c) # wp @ (nsc @ ''provider'', provider c) # wc"
      by (simp add: s'_def)
    ultimately show ?thesis by (simp only:)
  qed
  have "puts s' = (puts s @ (nsp @ ''consumer'', consumer c) # wp) @ (nsc @ ''provider'', provider c) # wc"
    by (simp add: s'_def)
  then have b: "store_after st (puts s') (nsc @ ''provider'') = Some (provider c)"
    using d4 store_after_last_write[of "nsc @ ''provider''" wc st
        "puts s @ (nsp @ ''consumer'', consumer c) # wp" "provider c"]
    by simp
  show ?thesis using run a b unfolding pk ck by blast
qed

text \<open>
  Scenario S1: the matchmaker emits the pair of \<open>A\<close> and \<open>B\<close>, neither side has a
  record, and the two link keys of the connection \<open>id\<close> are written.
\<close>

theorem connection_links_both_sides_witness:
  "build_networks (state_of pair_cache) (filter_js (cache (state_of pair_cache)) ''cns/*/name'') []
     = Some [pair_AB] \<and>
   \<not> provider_linked (state_of pair_cache) pair_AB \<and>
   \<not> consumer_linked (state_of pair_cache) pair_AB \<and>
   (\<exists>s'. connection short_ids pair_AB (state_of pair_cache) = Inr s' \<and>
      store_after Map.empty (puts s')
        ''cns/N/nodes/A/contexts/X/provider/p1/connections/id/consumer''
        = Some ''cns/N/nodes/B/contexts/X'' \<and>
      store_after Map.empty (puts s')
        ''cns/N/nodes/B/contexts/X/consumer/p1/connections/id/provider''
        = Some ''cns/N/nodes/A/contexts/X'')"
proof -
  have c: "cache (state_of pair_cache) = pair_cache" and cl: "client (state_of pair_cache)"
    by (simp_all add: state_of_def)
  have e: "build_networks (state_of pair_cache) (filter_js (cache (state_of pair_cache)) ''cns/*/name'') []
     = Some [pair_AB]"
    by (rule pair_cache_candidates[OF c])
  have m: "pair_AB \<in> set [pair_AB]" by simp
  show ?thesis
    using connection_links_both_sides[OF e m pair_cache_unlinked[OF c] cl, of short_ids Map.empty] e
      pair_cache_unlinked[OF c]
    by (simp add: pair_AB_def state_of_def short_ids_def)
qed

lemma borrowed_candidates:
  assumes "cache s = borrowed_cache"
  shows "build_networks s (filter_js (cache s) ''cns/*/name'') [] = Some [pair_AB]"
  unfolding assms borrowed_cache_def pair_cache_def pair_AB_def
  by (simp add: eval_matchmaker Let_def assms borrowed_cache_def pair_cache_def)

text \<open>
  C1 as stated fails where the cache holds a record of another node whose name differs
  in letter case. The cache has no record of the provider capability of node \<open>A\<close> nor
  of the consumer capability of node \<open>B\<close>, and the matchmaker emits their pair; the
  record \<open>c9\<close> of node \<open>a\<close> is taken for the provider side, and the only write is the
  consumer-side key, under the identifier \<open>c9\<close>: no key under
  \<open>cns/N/nodes/A/contexts/X/provider/p1/connections\<close> is written.
\<close>

theorem borrowed_record_skips_provider_side:
  "build_networks (state_of borrowed_cache) (filter_js (cache (state_of borrowed_cache)) ''cns/*/name'') []
     = Some [pair_AB] \<and>
   own_keys (state_of borrowed_cache) ''cns/N/nodes/A/contexts/X/provider/p1/connections/*/consumer'' = [] \<and>
   own_keys (state_of borrowed_cache) ''cns/N/nodes/B/contexts/X/consumer/p1/connections/*/provider'' = [] \<and>
   connection short_ids pair_AB (state_of borrowed_cache)
     = Inr ((state_of borrowed_cache)\<lparr>puts :=
         [(''cns/N/nodes/B/contexts/X/consumer/p1/connections/c9/provider'', ''cns/N/nodes/A/contexts/X'')]\<rparr>)"
proof -
  have a: "own_keys (state_of borrowed_cache) ''cns/N/nodes/A/contexts/X/provider/p1/connections/*/consumer'' = []"
    "own_keys (state_of borrowed_cache) ''cns/N/nodes/B/contexts/X/consumer/p1/connections/*/provider'' = []"
    by (simp_all add: own_keys_def state_of_def borrowed_cache_def pair_cache_def)
  have b: "connection short_ids pair_AB (state_of borrowed_cache)
     = Inr ((state_of borrowed_cache)\<lparr>puts :=
         [(''cns/N/nodes/B/contexts/X/consumer/p1/connections/c9/provider'', ''cns/N/nodes/A/contexts/X'')]\<rparr>)"
    by (simp add: eval_connection pair_AB_def state_of_def borrowed_cache_def pair_cache_def)
  show ?thesis using a b borrowed_candidates[OF state_of_simps(1)] by simp
qed

section \<open>The matcher of one network\<close>

text \<open>
  C2, as amended. For every network, provider endpoint, profile, version and scope,
  \<^verbatim>\<open>bysystem\<close> appends to \<open>add\<close>, in the order of the endpoints of the network, the
  candidates of every endpoint whose context is the scope: one candidate for every
  version key found under \<open>endpoint/consumer/profile/version\<close> whose value is the
  provider's version, the key being read segment by segment and up to letter case. So it
  appends nothing when no endpoint in the scope has such a key, and \<^verbatim>\<open>build\<close> issues no
  write when the matchmaker emits no candidate.
\<close>

theorem bysystem_exact:
  "bysystem s network prov prof vers scope add =
     add @ concat (map (\<lambda>(node, cx).
                     if cx = scope
                     then consumer_candidates s prov prof vers network node cx else [])
                (consumer_endpoints s network)) \<and>
   ((\<forall>(node, cx) \<in> set (consumer_endpoints s network).
       cx = scope \<longrightarrow> consumer_candidates s prov prof vers network node cx = [])
    \<longrightarrow> bysystem s network prov prof vers scope add = add) \<and>
   (build_networks s (filter_js (cache s) ''cns/*/name'') [] = Some [] \<longrightarrow> build gen s = Inr s)"
proof -
  have "concat (map (\<lambda>(node, cx).
                     if cx = scope
                     then consumer_candidates s prov prof vers network node cx else [])
                (consumer_endpoints s network)) = []"
    if "\<forall>(node, cx) \<in> set (consumer_endpoints s network).
       cx = scope \<longrightarrow> consumer_candidates s prov prof vers network node cx = []"
    using that by (auto simp: concat_eq_Nil_conv)
  then show ?thesis
    by (simp add: bysystem_candidates build_def)
qed

lemma mismatch_endpoints:
  assumes "cache s = mismatch_cache"
  shows "consumer_endpoints s (Str ''N'') = [(Str ''A'', Str ''X''), (Str ''B'', Str ''Y'')]"
  by (simp add: consumer_endpoints_def filter_js_found[symmetric] assms mismatch_cache_def
      eval_cache nth_js_def)

lemma mismatch_candidates:
  assumes "cache s = mismatch_cache"
  shows "build_networks s (filter_js (cache s) ''cns/*/name'') [] = Some []"
  unfolding assms mismatch_cache_def by (simp add: eval_matchmaker assms mismatch_cache_def)

text \<open>
  Scenario S2: the endpoints of the network are \<open>A/X\<close> and \<open>B/Y\<close>; the one in the scope
  \<open>X\<close> has no consumer capability, no candidate is emitted and nothing is written.
\<close>

theorem bysystem_exact_witness:
  "consumer_endpoints (state_of mismatch_cache) (Str ''N'') = [(Str ''A'', Str ''X''), (Str ''B'', Str ''Y'')] \<and>
   consumer_candidates (state_of mismatch_cache) ''cns/N/nodes/A/contexts/X'' (Str ''p1'') ''1''
      (Str ''N'') (Str ''A'') (Str ''X'') = [] \<and>
   bysystem (state_of mismatch_cache) (Str ''N'') ''cns/N/nodes/A/contexts/X'' (Str ''p1'') ''1''
     (Str ''X'') [] = [] \<and>
   build_networks (state_of mismatch_cache) (filter_js (cache (state_of mismatch_cache)) ''cns/*/name'') []
     = Some [] \<and>
   build short_ids (state_of mismatch_cache) = Inr (state_of mismatch_cache)"
proof -
  have c: "cache (state_of mismatch_cache) = mismatch_cache" by (simp add: state_of_def)
  have none: "consumer_candidates (state_of mismatch_cache) ''cns/N/nodes/A/contexts/X'' (Str ''p1'') ''1''
      (Str ''N'') (Str ''A'') (Str ''X'') = []"
    by (simp add: consumer_candidates_def filter_js_found[symmetric] endpoint_def state_of_def
        mismatch_cache_def eval_cache)
  show ?thesis
    using bysystem_exact[of "state_of mismatch_cache" "Str ''N''" "''cns/N/nodes/A/contexts/X''"
        "Str ''p1''" "''1''" "Str ''X''" "[]" short_ids]
    by (simp add: mismatch_endpoints[OF c] mismatch_candidates[OF c] none)
qed

lemma casefold_candidates:
  assumes "cache s = casefold_cache"
  shows "build_networks s (filter_js (cache s) ''cns/*/name'') [] = Some [pair_AB]"
  unfolding assms casefold_cache_def pair_AB_def by (simp add: eval_matchmaker assms casefold_cache_def)

lemma casefold_connection:
  "connection short_ids pair_AB (state_of casefold_cache)
   = Inr ((state_of casefold_cache)\<lparr>ids := 1, puts := pair_links\<rparr>)"
  by (simp add: eval_connection pair_AB_def state_of_def casefold_cache_def pair_links_def)

text \<open>
  C2 as stated fails where the consumer sits in a context whose name differs from the
  scope in letter case only. The endpoint \<open>B/X\<close> has no version key of a consumer
  capability, the only such key of the network is that of \<open>B/x\<close>; yet \<^verbatim>\<open>bysystem\<close>
  emits the pair of \<open>A/X\<close> and \<open>B/X\<close>, and \<^verbatim>\<open>build\<close> writes the two link keys of a
  connection between them.
\<close>

theorem bysystem_folds_case:
  "bysystem (state_of casefold_cache) (Str ''N'') ''cns/N/nodes/A/contexts/X'' (Str ''p1'') ''1''
     (Str ''X'') [] = [pair_AB] \<and>
   own_keys (state_of casefold_cache) ''cns/N/nodes/B/contexts/X/consumer/p1/version'' = [] \<and>
   own_keys (state_of casefold_cache) ''cns/N/nodes/*/contexts/*/consumer/*/version''
     = [(''cns/N/nodes/B/contexts/x/consumer/p1/version'', ''1'')] \<and>
   build short_ids (state_of casefold_cache)
     = Inr ((state_of casefold_cache)\<lparr>ids := 1, puts := pair_links\<rparr>)"
proof -
  have a: "bysystem (state_of casefold_cache) (Str ''N'') ''cns/N/nodes/A/contexts/X'' (Str ''p1'') ''1''
     (Str ''X'') [] = [pair_AB]"
    by (simp add: bysystem_def endpoint_def eval_cache nth_js_def state_of_def casefold_cache_def
        pair_AB_def)
  have b: "own_keys (state_of casefold_cache) ''cns/N/nodes/B/contexts/X/consumer/p1/version'' = []"
    "own_keys (state_of casefold_cache) ''cns/N/nodes/*/contexts/*/consumer/*/version''
     = [(''cns/N/nodes/B/contexts/x/consumer/p1/version'', ''1'')]"
    by (simp_all add: own_keys_def state_of_def casefold_cache_def)
  have c: "build short_ids (state_of casefold_cache)
     = Inr ((state_of casefold_cache)\<lparr>ids := 1, puts := pair_links\<rparr>)"
    unfolding build_def casefold_candidates[OF state_of_simps(1)]
    by (simp add: casefold_connection bind_err_def)
  show ?thesis using a b c by simp
qed

section \<open>The properties of a new connection\<close>




section \<open>Idempotence\<close>



















section \<open>A network without a valid mode\<close>

text \<open>
  C8 fails. In front of the network \<open>N\<close> of scenario S1 the cache has a network \<open>M\<close>
  whose mode is \<open>nodes\<close>: \<^verbatim>\<open>build\<close> issues no write at all, whereas on the cache of \<open>N\<close>
  alone it writes the two link keys of the connection between \<open>A\<close> and \<open>B\<close>.
\<close>

theorem build_stops_at_invalid_network:
  "build short_ids (state_of two_network_cache) = Inr (state_of two_network_cache) \<and>
   build short_ids (state_of pair_cache) = Inr ((state_of pair_cache)\<lparr>ids := 1, puts := pair_links\<rparr>)"
proof -
  have mem: "(''cns/M/name'', ''Other'') \<in> set (filter_js (cache (state_of two_network_cache)) ''cns/*/name'')"
    by (simp add: filter_js_member state_of_def two_network_cache_def compare_def
        match_glob_rec canon_printable line_terminator_def)
  have inv: "\<not> isValidMode (obj_get (cache (state_of two_network_cache))
      (''cns/'' @ to_str (nth_js (split ''cns/M/name'') 1) @ ''/orchestrator''))"
    by (simp add: state_of_def two_network_cache_def obj_get_def nth_js_def isValidMode_def)
  have "build short_ids (state_of two_network_cache) = Inr (state_of two_network_cache)"
    by (simp add: build_def build_networks_invalid[OF mem inv])
  then show ?thesis using pair_cache_build by (simp add: linked_pair_state_def)
qed

end
